theory Spec2Isabelle
  imports Complex_Main "HOL-Library.List_Lexorder" "HOL-Library.Char_ord"
    "HOL-Library.Product_Lexorder" "HOL-Library.Log_Nat"
begin


section \<open>The tiling core of tiles.py\<close>

text \<open>
  The grid generator of \<^verbatim>\<open>tiles.py\<close> is arithmetic on Python floats followed by string
  formatting. A Python \<^verbatim>\<open>float\<close> is an IEEE 754 binary64 number: the model has its
  finite values, the two infinities and NaN, and every operation rounds its exact result
  to the nearest double, a tie going to the even mantissa. Python \<^verbatim>\<open>int\<close> is
  \<^typ>\<open>int\<close>, \<^verbatim>\<open>str\<close> is \<^typ>\<open>string\<close>. An exception is a value \<open>Inl e\<close> of a sum type.
\<close>

subsection \<open>Errors\<close>

text \<open>
  \<^verbatim>\<open>validate_tile_resolution\<close> raises \<^verbatim>\<open>ValueError\<close> at three places, told apart by
  their message; \<^verbatim>\<open>math.floor\<close>, \<^verbatim>\<open>math.ceil\<close> and \<^verbatim>\<open>round\<close> raise
  \<^verbatim>\<open>OverflowError\<close> on an infinity and \<^verbatim>\<open>ValueError\<close> on NaN; a division by zero
  raises \<^verbatim>\<open>ZeroDivisionError\<close>.
\<close>

datatype value_error = WholeNumberOfPixels | DivisibleBy512 | DivisibleBy16 | NaNToInteger

datatype py_error = ZeroDivisionError | OverflowError | ValueError value_error

definition bind_err :: "py_error + 'a \<Rightarrow> ('a \<Rightarrow> py_error + 'b) \<Rightarrow> py_error + 'b" where
  "bind_err m f = (case m of Inl e \<Rightarrow> Inl e | Inr a \<Rightarrow> f a)"

subsection \<open>Python floats\<close>

text \<open>
  A finite float is given by its value, a real number. The sign of a zero is not kept:
  the program cannot observe it (a division by either zero raises).
\<close>

datatype pyfloat = Finite real | PosInf | NegInf | NaN

text \<open>
  The nearest integer, a tie going to the even one: \<^verbatim>\<open>round(x)\<close> with one argument on
  the value of a finite float, and the rounding of a mantissa below.
\<close>

definition py_round :: "real \<Rightarrow> int" where
  "py_round x =
     (let f = \<lfloor>x\<rfloor>; d = x - of_int f
      in if d < 1 / 2 then f
         else if 1 / 2 < d then f + 1
         else if even f then f else f + 1)"

text \<open>The integer \<open>n\<close> with \<open>2 ^ n \<le> |x| < 2 ^ (n + 1)\<close>, for \<open>x\<close> other than zero.\<close>

definition floor_log2 :: "real \<Rightarrow> int" where
  "floor_log2 x =
     (if 1 \<le> \<bar>x\<bar> then bitlen \<lfloor>\<bar>x\<bar>\<rfloor> - 1 else - bitlen (\<lceil>1 / \<bar>x\<bar>\<rceil> - 1))"

text \<open>
  The doubles around \<open>x\<close> are the multiples of \<open>2 ^ double_exponent x\<close>: a mantissa has
  53 bits, and below \<open>2 ^ -1022\<close> the spacing stays \<open>2 ^ -1074\<close> (subnormal numbers).
\<close>

definition double_exponent :: "real \<Rightarrow> int" where
  "double_exponent x = max (floor_log2 x - 52) (- 1074)"

text \<open>Rounding to nearest, ties to even, before the test for overflow.\<close>

definition round_double :: "real \<Rightarrow> real" where
  "round_double x =
     (if x = 0 then 0
      else of_int (py_round (x / 2 powi double_exponent x)) * 2 powi double_exponent x)"

text \<open>The float that an operation returns when its exact result is \<open>x\<close>.\<close>

definition to_float :: "real \<Rightarrow> pyfloat" where
  "to_float x =
     (let y = round_double x
      in if 2 ^ 1024 \<le> y then PosInf else if y \<le> - (2 ^ 1024) then NegInf else Finite y)"

fun float_neg :: "pyfloat \<Rightarrow> pyfloat" where
  "float_neg (Finite a) = Finite (- a)"
| "float_neg PosInf = NegInf"
| "float_neg NegInf = PosInf"
| "float_neg NaN = NaN"

fun float_add :: "pyfloat \<Rightarrow> pyfloat \<Rightarrow> pyfloat" where
  "float_add (Finite a) (Finite b) = to_float (a + b)"
| "float_add NaN _ = NaN"
| "float_add _ NaN = NaN"
| "float_add PosInf NegInf = NaN"
| "float_add NegInf PosInf = NaN"
| "float_add PosInf _ = PosInf"
| "float_add _ PosInf = PosInf"
| "float_add NegInf _ = NegInf"
| "float_add _ NegInf = NegInf"

definition float_sub :: "pyfloat \<Rightarrow> pyfloat \<Rightarrow> pyfloat" where
  "float_sub a b = float_add a (float_neg b)"

text \<open>The sign of a product or quotient with an infinity.\<close>

definition signed_inf :: "bool \<Rightarrow> pyfloat" where
  "signed_inf positive = (if positive then PosInf else NegInf)"

fun float_mul :: "pyfloat \<Rightarrow> pyfloat \<Rightarrow> pyfloat" where
  "float_mul (Finite a) (Finite b) = to_float (a * b)"
| "float_mul NaN _ = NaN"
| "float_mul _ NaN = NaN"
| "float_mul (Finite a) PosInf = (if a = 0 then NaN else signed_inf (0 < a))"
| "float_mul (Finite a) NegInf = (if a = 0 then NaN else signed_inf (a < 0))"
| "float_mul PosInf (Finite b) = (if b = 0 then NaN else signed_inf (0 < b))"
| "float_mul NegInf (Finite b) = (if b = 0 then NaN else signed_inf (b < 0))"
| "float_mul PosInf PosInf = PosInf"
| "float_mul PosInf NegInf = NegInf"
| "float_mul NegInf PosInf = NegInf"
| "float_mul NegInf NegInf = PosInf"

text \<open>\<^verbatim>\<open>a / b\<close> on floats: a zero divisor raises, whatever the dividend.\<close>

fun float_truediv :: "pyfloat \<Rightarrow> pyfloat \<Rightarrow> py_error + pyfloat" where
  "float_truediv (Finite a) (Finite b) =
     (if b = 0 then Inl ZeroDivisionError else Inr (to_float (a / b)))"
| "float_truediv PosInf (Finite b) =
     (if b = 0 then Inl ZeroDivisionError else Inr (signed_inf (0 < b)))"
| "float_truediv NegInf (Finite b) =
     (if b = 0 then Inl ZeroDivisionError else Inr (signed_inf (b < 0)))"
| "float_truediv NaN (Finite b) = (if b = 0 then Inl ZeroDivisionError else Inr NaN)"
| "float_truediv _ NaN = Inr NaN"
| "float_truediv (Finite a) _ = Inr (Finite 0)"
| "float_truediv _ _ = Inr NaN"

fun float_abs :: "pyfloat \<Rightarrow> pyfloat" where
  "float_abs (Finite a) = Finite \<bar>a\<bar>"
| "float_abs PosInf = PosInf"
| "float_abs NegInf = PosInf"
| "float_abs NaN = NaN"

text \<open>\<^verbatim>\<open>a > b\<close>: false when either side is NaN.\<close>

fun float_gt :: "pyfloat \<Rightarrow> pyfloat \<Rightarrow> bool" where
  "float_gt NaN _ = False"
| "float_gt _ NaN = False"
| "float_gt (Finite a) (Finite b) = (b < a)"
| "float_gt PosInf PosInf = False"
| "float_gt PosInf _ = True"
| "float_gt _ PosInf = False"
| "float_gt NegInf _ = False"
| "float_gt _ NegInf = True"

fun math_floor :: "pyfloat \<Rightarrow> py_error + int" where
  "math_floor (Finite a) = Inr \<lfloor>a\<rfloor>"
| "math_floor NaN = Inl (ValueError NaNToInteger)"
| "math_floor _ = Inl OverflowError"

fun math_ceil :: "pyfloat \<Rightarrow> py_error + int" where
  "math_ceil (Finite a) = Inr \<lceil>a\<rceil>"
| "math_ceil NaN = Inl (ValueError NaNToInteger)"
| "math_ceil _ = Inl OverflowError"

text \<open>\<^verbatim>\<open>round(x)\<close> with one argument, on a float.\<close>

fun py_round_float :: "pyfloat \<Rightarrow> py_error + int" where
  "py_round_float (Finite a) = Inr (py_round a)"
| "py_round_float NaN = Inl (ValueError NaNToInteger)"
| "py_round_float _ = Inl OverflowError"

text \<open>
  An \<^verbatim>\<open>int\<close> operand of a float operation is converted first, to the nearest double;
  an integer beyond the range of the doubles raises.
\<close>

definition int_to_float :: "int \<Rightarrow> py_error + pyfloat" where
  "int_to_float k =
     (case to_float (of_int k) of Finite y \<Rightarrow> Inr (Finite y) | _ \<Rightarrow> Inl OverflowError)"

definition int_mul_float :: "int \<Rightarrow> pyfloat \<Rightarrow> py_error + pyfloat" where
  "int_mul_float k x = bind_err (int_to_float k) (\<lambda>kf. Inr (float_mul kf x))"

definition float_sub_int :: "pyfloat \<Rightarrow> int \<Rightarrow> py_error + pyfloat" where
  "float_sub_int x k = bind_err (int_to_float k) (\<lambda>kf. Inr (float_sub x kf))"

text \<open>The literal \<^verbatim>\<open>1e-9\<close>: the double nearest to \<open>10 ^ -9\<close>.\<close>

definition double_1e_9 :: pyfloat where
  "double_1e_9 = Finite (4835703278458517 / 2 ^ 82)"

subsection \<open>Grid snapper and tile indexer\<close>

text \<open>
  The arguments are floats, as the type hints of the source say (\<^verbatim>\<open>main\<close> passes the
  floats that \<^verbatim>\<open>argparse\<close> built). The parameters \<^verbatim>\<open>value\<close> and \<^verbatim>\<open>size\<close> of the
  source are \<open>v\<close> and \<open>sz\<close> here (both names are taken in HOL). Every intermediate result
  is rounded: the difference, the quotient, the product with the integer that
  \<^verbatim>\<open>math.floor\<close> returned, and the sum.
\<close>

definition snapped_start :: "pyfloat \<Rightarrow> pyfloat \<Rightarrow> pyfloat \<Rightarrow> py_error + pyfloat" where
  "snapped_start v origin sz =
     bind_err (float_truediv (float_sub v origin) sz) (\<lambda>q.
     bind_err (math_floor q) (\<lambda>k.
     bind_err (int_mul_float k sz) (\<lambda>p.
       Inr (float_add origin p))))"

definition snapped_end :: "pyfloat \<Rightarrow> pyfloat \<Rightarrow> pyfloat \<Rightarrow> py_error + pyfloat" where
  "snapped_end v origin sz =
     bind_err (float_truediv (float_sub v origin) sz) (\<lambda>q.
     bind_err (math_ceil q) (\<lambda>k.
     bind_err (int_mul_float k sz) (\<lambda>p.
       Inr (float_add origin p))))"

definition idx_from_ll ::
  "pyfloat \<Rightarrow> pyfloat \<Rightarrow> pyfloat \<Rightarrow> pyfloat \<Rightarrow> pyfloat \<Rightarrow> py_error + (int \<times> int)" where
  "idx_from_ll xmin ymin origin_x origin_y tile_size =
     bind_err (float_truediv (float_sub xmin origin_x) tile_size) (\<lambda>qx.
     bind_err (math_floor qx) (\<lambda>col.
     bind_err (float_truediv (float_sub ymin origin_y) tile_size) (\<lambda>qy.
     bind_err (math_floor qy) (\<lambda>row.
       Inr (col, row)))))"

subsection \<open>Resolution validator\<close>

text \<open>
  The function returns \<^verbatim>\<open>None\<close>; success is \<open>Inr ()\<close>. In
  \<^verbatim>\<open>pixels - round(pixels)\<close> the integer is converted to a float and the difference is
  rounded; the tolerance is the double \<^verbatim>\<open>1e-9\<close>.
\<close>

definition validate_tile_resolution :: "pyfloat \<Rightarrow> pyfloat \<Rightarrow> py_error + unit" where
  "validate_tile_resolution tile_size resolution =
     bind_err (float_truediv tile_size resolution) (\<lambda>pixels.
     bind_err (py_round_float pixels) (\<lambda>rounded.
     bind_err (float_sub_int pixels rounded) (\<lambda>deviation.
       if float_gt (float_abs deviation) double_1e_9
       then Inl (ValueError WholeNumberOfPixels)
       else bind_err (py_round_float pixels) (\<lambda>pixels.
            if pixels mod 512 \<noteq> 0 then Inl (ValueError DivisibleBy512)
            else if pixels mod 16 \<noteq> 0 then Inl (ValueError DivisibleBy16)
            else Inr ()))))"

subsection \<open>Tile ID formatter\<close>

text \<open>Decimal digits of a natural number, most significant first.\<close>

definition digit_char :: "nat \<Rightarrow> char" where
  "digit_char d = ''0123456789'' ! d"

fun digits :: "nat \<Rightarrow> string" where
  "digits n = (if n < 10 then [digit_char n] else digits (n div 10) @ [digit_char (n mod 10)])"

declare digits.simps [simp del]

text \<open>\<^verbatim>\<open>f"{n}"\<close> for an \<^verbatim>\<open>int\<close>: a minus sign for a negative number, no plus sign.\<close>

definition py_str_int :: "int \<Rightarrow> string" where
  "py_str_int n = (if n < 0 then CHR ''-'' # digits (nat (- n)) else digits (nat n))"

text \<open>
  \<^verbatim>\<open>f"{n:+0wd}"\<close>: the sign is always written, and \<open>w\<close> is the minimum width of the whole
  field, the sign included; the zero flag fills to that width between the sign and the
  digits. A number with more digits is written in full.
\<close>

definition py_format_plus_zero_d :: "nat \<Rightarrow> int \<Rightarrow> string" where
  "py_format_plus_zero_d w n =
     (let sign = (if n < 0 then CHR ''-'' else CHR ''+''); ds = digits (nat \<bar>n\<bar>)
      in sign # replicate (w - Suc (length ds)) CHR ''0'' @ ds)"

definition format_tile_id :: "real \<Rightarrow> int \<Rightarrow> int \<Rightarrow> real \<Rightarrow> string" where
  "format_tile_id tile_size col row resolution =
     (let tile_size_int = py_round tile_size;
          resolution_int = py_round resolution
      in ''T'' @ py_str_int tile_size_int @ ''_R'' @ py_str_int resolution_int
         @ ''_C'' @ py_format_plus_zero_d 7 col @ ''_R'' @ py_format_plus_zero_d 7 row)"

text \<open>
  \<^const>\<open>format_tile_id\<close> is the function on the values of two finite floats. On floats,
  \<^verbatim>\<open>round\<close> raises for an infinity or NaN, the tile size first.
\<close>

definition format_tile_id_float :: "pyfloat \<Rightarrow> int \<Rightarrow> int \<Rightarrow> pyfloat \<Rightarrow> py_error + string" where
  "format_tile_id_float tile_size col row resolution =
     bind_err (py_round_float tile_size) (\<lambda>tile_size_int.
     bind_err (py_round_float resolution) (\<lambda>resolution_int.
       Inr (''T'' @ py_str_int tile_size_int @ ''_R'' @ py_str_int resolution_int
            @ ''_C'' @ py_format_plus_zero_d 7 col @ ''_R'' @ py_format_plus_zero_d 7 row)))"

subsection \<open>Grid generator\<close>

text \<open>
  One output record; field \<open>t_k\<close> is the key \<^verbatim>\<open>"k"\<close> of the source's dict. The geometry
  \<^verbatim>\<open>box(x0, y0, x1, y1)\<close> is kept as its four arguments.
\<close>

record tile =
  t_tile_id :: string
  t_tile_size_ft :: pyfloat
  t_resolution_ft :: pyfloat
  t_origin_x :: pyfloat
  t_origin_y :: pyfloat
  t_col :: int
  t_row :: int
  t_xmin :: pyfloat
  t_ymin :: pyfloat
  t_xmax :: pyfloat
  t_ymax :: pyfloat
  t_width :: pyfloat
  t_height :: pyfloat
  t_geometry :: "pyfloat \<times> pyfloat \<times> pyfloat \<times> pyfloat"

text \<open>\<^verbatim>\<open>range(n)\<close>: empty when \<open>n \<le> 0\<close>.\<close>

definition py_range :: "int \<Rightarrow> int list" where
  "py_range n = [0..n - 1]"

text \<open>
  A \<^verbatim>\<open>for\<close> loop over a list, its body updating the state (here the list
  \<^verbatim>\<open>records\<close>); an exception in the body ends the loop.
\<close>

fun for_loop :: "'i list \<Rightarrow> ('i \<Rightarrow> 's \<Rightarrow> py_error + 's) \<Rightarrow> 's \<Rightarrow> py_error + 's" where
  "for_loop [] body s = Inr s"
| "for_loop (i # is) body s = bind_err (body i s) (for_loop is body)"

definition generate_tiles ::
  "pyfloat \<times> pyfloat \<times> pyfloat \<times> pyfloat \<Rightarrow> pyfloat \<Rightarrow> pyfloat \<Rightarrow> pyfloat \<Rightarrow> pyfloat
     \<Rightarrow> py_error + tile list" where
  "generate_tiles bounds tile_size origin_x origin_y resolution =
     (case bounds of (xmin, ymin, xmax, ymax) \<Rightarrow>
      bind_err (snapped_start xmin origin_x tile_size) (\<lambda>sxmin.
      bind_err (snapped_start ymin origin_y tile_size) (\<lambda>symin.
      bind_err (snapped_end xmax origin_x tile_size) (\<lambda>sxmax.
      bind_err (snapped_end ymax origin_y tile_size) (\<lambda>symax.
      bind_err (float_truediv (float_sub sxmax sxmin) tile_size) (\<lambda>qc.
      bind_err (py_round_float qc) (\<lambda>ncols.
      bind_err (float_truediv (float_sub symax symin) tile_size) (\<lambda>qr.
      bind_err (py_round_float qr) (\<lambda>nrows.
        for_loop (py_range nrows) (\<lambda>r records.
          bind_err (int_mul_float r tile_size) (\<lambda>rt.
            let y0 = float_add symin rt;
                y1 = float_add y0 tile_size
            in for_loop (py_range ncols) (\<lambda>c records.
                 bind_err (int_mul_float c tile_size) (\<lambda>ct.
                   let x0 = float_add sxmin ct;
                       x1 = float_add x0 tile_size
                   in bind_err (idx_from_ll x0 y0 origin_x origin_y tile_size) (\<lambda>(col, row).
                      bind_err (format_tile_id_float tile_size col row resolution) (\<lambda>tile_id.
                        let rec = \<lparr>t_tile_id = tile_id,
                                   t_tile_size_ft = tile_size,
                                   t_resolution_ft = resolution,
                                   t_origin_x = origin_x,
                                   t_origin_y = origin_y,
                                   t_col = col,
                                   t_row = row,
                                   t_xmin = x0,
                                   t_ymin = y0,
                                   t_xmax = x1,
                                   t_ymax = y1,
                                   t_width = tile_size,
                                   t_height = tile_size,
                                   t_geometry = (x0, y0, x1, y1)\<rparr>
                        in Inr (records @ [rec]))))) records)) [])))))))))"

subsection \<open>The record of one grid cell\<close>

text \<open>
  Not a function of the source: what the loop body of \<^verbatim>\<open>generate_tiles\<close>
  computes at loop position \<open>(r, c)\<close> when the snapped lower-left corner of the grid is
  \<open>(sxmin, symin)\<close>, the dict that it appends or the exception that it raises, written
  out once so that the theorems on the generator can name it.
\<close>

definition tile_at ::
  "pyfloat \<Rightarrow> pyfloat \<Rightarrow> pyfloat \<Rightarrow> pyfloat \<Rightarrow> pyfloat \<Rightarrow> pyfloat \<Rightarrow> int \<Rightarrow> int
     \<Rightarrow> py_error + tile" where
  "tile_at tile_size origin_x origin_y resolution sxmin symin r c =
     bind_err (int_mul_float r tile_size) (\<lambda>rt.
       let y0 = float_add symin rt;
           y1 = float_add y0 tile_size
       in bind_err (int_mul_float c tile_size) (\<lambda>ct.
            let x0 = float_add sxmin ct;
                x1 = float_add x0 tile_size
            in bind_err (idx_from_ll x0 y0 origin_x origin_y tile_size) (\<lambda>(col, row).
               bind_err (format_tile_id_float tile_size col row resolution) (\<lambda>tile_id.
                 Inr \<lparr>t_tile_id = tile_id,
                      t_tile_size_ft = tile_size,
                      t_resolution_ft = resolution,
                      t_origin_x = origin_x,
                      t_origin_y = origin_y,
                      t_col = col,
                      t_row = row,
                      t_xmin = x0,
                      t_ymin = y0,
                      t_xmax = x1,
                      t_ymax = y1,
                      t_width = tile_size,
                      t_height = tile_size,
                      t_geometry = (x0, y0, x1, y1)\<rparr>))))"

subsection \<open>Auxiliary definitions\<close>

text \<open>
  Not functions of the source; they are used to state what the program does.
  Whether a float is a number other than an infinity or NaN:
\<close>

fun is_finite :: "pyfloat \<Rightarrow> bool" where
  "is_finite (Finite a) = True"
| "is_finite _ = False"

text \<open>
  The tile with index \<open>(col, row)\<close> of the grid with an integer-valued tile size and
  origin: its lower-left corner is \<open>origin + index * tile_size\<close>, computed in the
  integers.
\<close>

definition grid_tile :: "int \<Rightarrow> int \<Rightarrow> int \<Rightarrow> real \<Rightarrow> int \<Rightarrow> int \<Rightarrow> tile" where
  "grid_tile tile_size origin_x origin_y resolution col row =
     (let x0 = Finite (of_int (origin_x + col * tile_size));
          y0 = Finite (of_int (origin_y + row * tile_size));
          x1 = Finite (of_int (origin_x + col * tile_size + tile_size));
          y1 = Finite (of_int (origin_y + row * tile_size + tile_size))
      in \<lparr>t_tile_id = format_tile_id (of_int tile_size) col row resolution,
          t_tile_size_ft = Finite (of_int tile_size),
          t_resolution_ft = Finite resolution,
          t_origin_x = Finite (of_int origin_x),
          t_origin_y = Finite (of_int origin_y),
          t_col = col,
          t_row = row,
          t_xmin = x0,
          t_ymin = y0,
          t_xmax = x1,
          t_ymax = y1,
          t_width = Finite (of_int tile_size),
          t_height = Finite (of_int tile_size),
          t_geometry = (x0, y0, x1, y1)\<rparr>)"

section \<open>Facts about rounding to a double\<close>

lemma floor_log2_bounds:
  assumes "x \<noteq> 0"
  shows "2 powi floor_log2 x \<le> \<bar>x\<bar> \<and> \<bar>x\<bar> < 2 powi (floor_log2 x + 1)"
proof (cases "1 \<le> \<bar>x\<bar>")
  case True
  define n where "n = \<lfloor>\<bar>x\<bar>\<rfloor>"
  have n: "1 \<le> n" using True by (simp add: n_def)
  then have b: "2 ^ nat (bitlen n - 1) \<le> n \<and> n < 2 ^ nat (bitlen n)"
    using bitlen_bounds [of n] by simp
  have bl: "1 \<le> bitlen n"
  proof (rule ccontr)
    assume "\<not> 1 \<le> bitlen n"
    then have "nat (bitlen n) = 0" by simp
    with b n show False by simp
  qed
  have fl: "floor_log2 x = bitlen n - 1" using True by (simp add: floor_log2_def n_def)
  have "(2::real) powi (bitlen n - 1) = 2 ^ nat (bitlen n - 1)"
    using bl by (simp add: power_int_def)
  also have "\<dots> = of_int (2 ^ nat (bitlen n - 1))" by simp
  also have "\<dots> \<le> of_int n" using b by (simp only: of_int_le_iff)
  also have "\<dots> \<le> \<bar>x\<bar>" by (simp add: n_def)
  finally have lo: "2 powi floor_log2 x \<le> \<bar>x\<bar>" by (simp add: fl)
  have "\<bar>x\<bar> < of_int (n + 1)" by (simp add: n_def)
  also have "\<dots> \<le> of_int (2 ^ nat (bitlen n))" using b by (simp only: of_int_le_iff) simp
  also have "\<dots> = 2 powi (bitlen n)" using bl by (simp add: power_int_def)
  finally have "\<bar>x\<bar> < 2 powi (floor_log2 x + 1)" by (simp add: fl)
  with lo show ?thesis by simp
next
  case False
  define y where "y = 1 / \<bar>x\<bar>"
  define m where "m = \<lceil>y\<rceil> - 1"
  have xpos: "0 < \<bar>x\<bar>" using assms by simp
  have y1: "1 < y" using False xpos by (simp add: y_def)
  have m1: "1 \<le> m" using y1 by (simp add: m_def)
  have my: "of_int m < y \<and> y \<le> of_int m + 1" unfolding m_def by linarith
  have b: "2 ^ nat (bitlen m - 1) \<le> m \<and> m < 2 ^ nat (bitlen m)"
    using bitlen_bounds [of m] m1 by simp
  have bl: "1 \<le> bitlen m"
  proof (rule ccontr)
    assume "\<not> 1 \<le> bitlen m"
    then have "nat (bitlen m) = 0" by simp
    with b m1 show False by simp
  qed
  have fl: "floor_log2 x = - bitlen m" using False by (simp add: floor_log2_def m_def y_def)
  have "y \<le> of_int (m + 1)" using my by simp
  also have "\<dots> \<le> of_int (2 ^ nat (bitlen m))" using b by (simp only: of_int_le_iff) simp
  also have "\<dots> = 2 powi (bitlen m)" using bl by (simp add: power_int_def)
  finally have "y \<le> 2 powi (bitlen m)" .
  then have "1 / (2 powi (bitlen m)) \<le> 1 / y" using y1 by (simp add: frac_le)
  then have lo: "2 powi floor_log2 x \<le> \<bar>x\<bar>"
    by (simp add: fl y_def power_int_minus field_simps)
  have "(2::real) powi (bitlen m - 1) = 2 ^ nat (bitlen m - 1)"
    using bl by (simp add: power_int_def)
  also have "\<dots> = of_int (2 ^ nat (bitlen m - 1))" by simp
  also have "\<dots> \<le> of_int m" using b by (simp only: of_int_le_iff)
  also have "\<dots> < y" using my by simp
  finally have "2 powi (bitlen m - 1) < y" .
  moreover have "0 < (2::real) powi (bitlen m - 1)" by simp
  ultimately have "1 / y < 1 / (2 powi (bitlen m - 1))" by (simp add: frac_less2)
  moreover have "1 / y = \<bar>x\<bar>" by (simp add: y_def)
  moreover have "(2::real) powi (- (bitlen m - 1)) = 1 / 2 powi (bitlen m - 1)"
    by (simp only: power_int_minus inverse_eq_divide)
  moreover have "floor_log2 x + 1 = - (bitlen m - 1)" by (simp add: fl)
  ultimately have "\<bar>x\<bar> < 2 powi (floor_log2 x + 1)" by (simp only:)
  with lo show ?thesis by simp
qed

lemma floor_log2_eq:
  assumes "2 powi n \<le> \<bar>x\<bar>" and "\<bar>x\<bar> < 2 powi (n + 1)"
  shows "floor_log2 x = n"
proof -
  have p: "0 < (2::real) powi n" by simp
  have x: "x \<noteq> 0"
  proof
    assume "x = 0"
    with assms(1) p show False by simp
  qed
  note b = floor_log2_bounds [OF x]
  have 1: "n < floor_log2 x + 1"
  proof (rule ccontr)
    assume "\<not> n < floor_log2 x + 1"
    then have "(2::real) powi (floor_log2 x + 1) \<le> 2 powi n"
      by (intro power_int_increasing) simp_all
    with assms b show False by linarith
  qed
  have 2: "floor_log2 x < n + 1"
  proof (rule ccontr)
    assume "\<not> floor_log2 x < n + 1"
    then have "(2::real) powi (n + 1) \<le> 2 powi floor_log2 x"
      by (intro power_int_increasing) simp_all
    with assms b show False by linarith
  qed
  from 1 2 show ?thesis by simp
qed

lemma bind_err_Inr [simp]: "bind_err (Inr a) f = f a"
  by (simp add: bind_err_def)

lemma bind_err_Inl [simp]: "bind_err (Inl e) f = Inl e"
  by (simp add: bind_err_def)

lemma py_round_of_int [simp]: "py_round (of_int k) = k"
  by (simp add: py_round_def)

lemma py_round_close: "\<bar>x - of_int (py_round x)\<bar> \<le> 1 / 2"
proof -
  have "of_int \<lfloor>x\<rfloor> \<le> x" "x < of_int \<lfloor>x\<rfloor> + 1" by linarith+
  then show ?thesis by (auto simp: py_round_def Let_def)
qed

lemma py_round_unique:
  assumes "\<bar>x - of_int k\<bar> < 1 / 2"
  shows "py_round x = k"
proof -
  have "\<bar>x - of_int (py_round x)\<bar> \<le> 1 / 2" by (rule py_round_close)
  with assms have "\<bar>(of_int (py_round x) :: real) - of_int k\<bar> < 1" by linarith
  then have "\<bar>(of_int (py_round x - k) :: real)\<bar> < 1" by simp
  then have "\<bar>py_round x - k\<bar> < 1" by linarith
  then show ?thesis by simp
qed

lemma round_double_eval:
  assumes "2 powi L \<le> \<bar>x\<bar>" and "\<bar>x\<bar> < 2 powi (L + 1)"
  shows "round_double x
    = of_int (py_round (x / 2 powi max (L - 52) (- 1074))) * 2 powi max (L - 52) (- 1074)"
proof -
  have L: "floor_log2 x = L" using assms by (rule floor_log2_eq)
  have p: "0 < (2::real) powi L" by simp
  have "x \<noteq> 0"
  proof
    assume "x = 0"
    with assms(1) p show False by simp
  qed
  then show ?thesis by (simp add: round_double_def double_exponent_def L)
qed

lemma round_double_0 [simp]: "round_double 0 = 0"
  by (simp add: round_double_def)

lemma round_double_exact_lt:
  assumes x: "x = of_int m * 2 powi e" and m: "\<bar>m\<bar> < 2 ^ 53" and e: "- 1074 \<le> e"
  shows "round_double x = x"
proof (cases "m = 0")
  case True
  then show ?thesis using x by simp
next
  case False
  have xnz: "x \<noteq> 0" using False x by simp
  define E where "E = double_exponent x"
  note b = floor_log2_bounds [OF xnz]
  have "\<bar>x\<bar> = \<bar>of_int m\<bar> * 2 powi e" using x by (simp add: abs_mult)
  also have "\<dots> < 2 ^ 53 * 2 powi e"
  proof -
    have "\<bar>of_int m :: real\<bar> < 2 ^ 53" using m by (metis of_int_abs of_int_less_numeral_power_cancel_iff)
    then show ?thesis by simp
  qed
  also have "\<dots> = 2 powi (53 + e)" by (simp add: power_int_add)
  finally have "(2::real) powi floor_log2 x < 2 powi (53 + e)" using b by linarith
  have "floor_log2 x < 53 + e"
  proof (rule ccontr)
    assume "\<not> floor_log2 x < 53 + e"
    then have "(2::real) powi (53 + e) \<le> 2 powi floor_log2 x"
      by (intro power_int_increasing) simp_all
    with \<open>(2::real) powi floor_log2 x < 2 powi (53 + e)\<close> show False by linarith
  qed
  then have Ee: "E \<le> e" using e by (simp add: E_def double_exponent_def)
  have "x / 2 powi E = of_int m * (2 powi e / 2 powi E)" using x by simp
  also have "2 powi e / 2 powi E = (2::real) powi (e - E)" by (simp add: power_int_diff)
  also have "\<dots> = 2 ^ nat (e - E)" using Ee by (simp add: power_int_def)
  finally have q: "x / 2 powi E = of_int (m * 2 ^ nat (e - E))" by simp
  have "round_double x = of_int (py_round (x / 2 powi E)) * 2 powi E"
    using xnz by (simp add: round_double_def E_def)
  also have "\<dots> = (x / 2 powi E) * 2 powi E" by (simp only: q py_round_of_int)
  also have "\<dots> = x" by simp
  finally show ?thesis .
qed

lemma round_double_exact:
  assumes x: "x = of_int m * 2 powi e" and m: "\<bar>m\<bar> \<le> 2 ^ 53" and e: "- 1074 \<le> e"
  shows "round_double x = x"
proof (cases "\<bar>m\<bar> < 2 ^ 53")
  case True
  from x True e show ?thesis by (rule round_double_exact_lt)
next
  case False
  with m have "\<bar>m\<bar> = 2 ^ 53" by simp
  then consider "m = 2 ^ 53" | "m = - (2 ^ 53)" by linarith
  then obtain m' :: int where m': "m = 2 * m'" "\<bar>m'\<bar> < 2 ^ 53"
  proof cases
    case 1
    then have "m = 2 * 2 ^ 52" "\<bar>2 ^ 52 :: int\<bar> < 2 ^ 53" by simp_all
    then show ?thesis by (rule that)
  next
    case 2
    then have "m = 2 * (- (2 ^ 52))" "\<bar>- (2 ^ 52) :: int\<bar> < 2 ^ 53" by simp_all
    then show ?thesis by (rule that)
  qed
  have "x = of_int m' * 2 powi (e + 1)"
    using x m'(1) by (simp add: power_int_add)
  moreover have "- 1074 \<le> e + 1" using e by simp
  ultimately show ?thesis using m'(2) by (intro round_double_exact_lt [of x m' "e + 1"])
qed

lemma round_double_of_int:
  assumes "\<bar>n\<bar> \<le> 2 ^ 53"
  shows "round_double (of_int n) = of_int n"
  by (rule round_double_exact [of _ n 0]) (use assms in simp_all)

lemma to_float_of_int:
  assumes "\<bar>n\<bar> \<le> 2 ^ 53"
  shows "to_float (of_int n) = Finite (of_int n)"
proof -
  have "\<bar>of_int n :: real\<bar> \<le> 2 ^ 53"
    using assms by (metis of_int_abs of_int_le_numeral_power_cancel_iff)
  moreover have "(2::real) ^ 53 < 2 ^ 1024" by simp
  ultimately have "\<not> 2 ^ 1024 \<le> (of_int n :: real)" "\<not> (of_int n :: real) \<le> - (2 ^ 1024)"
    by linarith+
  then show ?thesis by (simp only: to_float_def round_double_of_int [OF assms] Let_def if_False)
qed

lemma round_double_error:
  assumes "2 powi (- 1022) \<le> \<bar>x\<bar>"
  shows "\<bar>round_double x - x\<bar> \<le> \<bar>x\<bar> / 2 ^ 53"
proof -
  have p: "0 < (2::real) powi (- 1022)" by (rule zero_less_power_int) simp
  have xnz: "x \<noteq> 0"
  proof
    assume "x = 0"
    with assms p show False by simp
  qed
  define L where "L = floor_log2 x"
  note b = floor_log2_bounds [OF xnz, folded L_def]
  have L: "- 1022 \<le> L"
  proof (rule ccontr)
    assume "\<not> - 1022 \<le> L"
    then have "(2::real) powi (L + 1) \<le> 2 powi (- 1022)"
      by (intro power_int_increasing) simp_all
    with assms b show False by linarith
  qed
  define E where "E = L - 52"
  have E: "double_exponent x = E" using L by (simp add: double_exponent_def L_def E_def)
  define t where "t = x / 2 powi E"
  have rd: "round_double x = of_int (py_round t) * 2 powi E"
    using xnz by (simp add: round_double_def E t_def)
  have xt: "x = t * 2 powi E" by (simp add: t_def)
  have "round_double x - x = (of_int (py_round t) - t) * 2 powi E"
    by (simp add: rd algebra_simps) (simp add: xt)
  then have "\<bar>round_double x - x\<bar> = \<bar>t - of_int (py_round t)\<bar> * 2 powi E"
    by (simp add: abs_mult abs_minus_commute)
  also have "\<dots> \<le> (1 / 2) * 2 powi E"
    by (intro mult_right_mono py_round_close) simp
  also have "2 powi E = (2::real) powi L / 2 ^ 52"
    by (simp add: E_def power_int_diff)
  also have "(1 / 2) * (2 powi L / 2 ^ 52) = (2::real) powi L / 2 ^ 53" by simp
  also have "\<dots> \<le> \<bar>x\<bar> / 2 ^ 53" using b by (simp add: divide_right_mono)
  finally show ?thesis .
qed

lemma round_double_div_close:
  fixes a b :: int
  assumes a: "\<bar>a\<bar> < 2 ^ 53" and b: "1 \<le> b" "b \<le> 2 ^ 1022"
  shows "\<bar>round_double (of_int a / of_int b) - of_int a / of_int b\<bar> < 1 / of_int b"
proof (cases "a = 0")
  case True
  then show ?thesis using b by simp
next
  case False
  define x :: real where "x = of_int a / of_int b"
  have bpos: "0 < (of_int b :: real)" using b by simp
  have a1: "1 \<le> \<bar>of_int a :: real\<bar>" using False by (metis of_int_abs of_int_1_le_iff abs_ge_zero linorder_not_less zero_less_abs_iff int_one_le_iff_zero_less)
  have ab: "\<bar>x\<bar> = \<bar>of_int a\<bar> / of_int b" using bpos by (simp add: x_def)
  have "(of_int b :: real) \<le> 2 ^ 1022"
    using b(2) by (metis of_int_le_numeral_power_cancel_iff)
  then have "1 / (2 ^ 1022) \<le> 1 / (of_int b :: real)" using bpos by (simp add: frac_le)
  also have "\<dots> \<le> \<bar>of_int a\<bar> / of_int b" using a1 bpos by (simp add: divide_right_mono)
  finally have "1 / 2 ^ 1022 \<le> \<bar>x\<bar>" by (simp add: ab)
  moreover have "(2::real) powi (- 1022) = 1 / 2 ^ 1022"
    by (simp add: power_int_minus inverse_eq_divide)
  ultimately have "2 powi (- 1022) \<le> \<bar>x\<bar>" by simp
  then have "\<bar>round_double x - x\<bar> \<le> \<bar>x\<bar> / 2 ^ 53" by (rule round_double_error)
  also have "\<dots> = (\<bar>of_int a\<bar> / 2 ^ 53) / of_int b" by (simp add: ab)
  also have "\<dots> < 1 / of_int b"
  proof -
    have "\<bar>of_int a :: real\<bar> < 2 ^ 53"
      using a by (metis of_int_abs of_int_less_numeral_power_cancel_iff)
    then have "\<bar>of_int a :: real\<bar> / 2 ^ 53 < 1" by simp
    from this bpos show ?thesis by (rule divide_strict_right_mono)
  qed
  finally show ?thesis by (simp add: x_def)
qed

lemma round_double_div_exact:
  fixes a b :: int
  assumes a: "\<bar>a\<bar> < 2 ^ 53" and b: "1 \<le> b" and d: "b dvd a"
  shows "round_double (of_int a / of_int b) = of_int (a div b)"
proof -
  from d obtain k where k: "a = b * k" ..
  have kd: "a div b = k" using k b by simp
  have "1 * \<bar>k\<bar> \<le> b * \<bar>k\<bar>" by (rule mult_right_mono) (use b in simp_all)
  also have "\<dots> = \<bar>a\<bar>" using b by (simp add: k abs_mult)
  finally have "\<bar>k\<bar> \<le> 2 ^ 53" using a by simp
  moreover have "(of_int a :: real) / of_int b = of_int k" using b by (simp add: k)
  ultimately show ?thesis by (simp add: round_double_of_int kd)
qed

lemma floor_round_double_div:
  fixes a b :: int
  assumes a: "\<bar>a\<bar> < 2 ^ 53" and b: "1 \<le> b" "b \<le> 2 ^ 1022"
  shows "\<lfloor>round_double (of_int a / of_int b)\<rfloor> = a div b"
proof (cases "b dvd a")
  case True
  then show ?thesis using a b by (simp add: round_double_div_exact)
next
  case False
  define k where "k = a div b"
  define r where "r = a mod b"
  have r: "1 \<le> r" "r \<le> b - 1"
    using False b by (simp_all add: r_def dvd_eq_mod_eq_0) (metis mod_int_pos_iff pos_mod_sign linorder_not_less int_one_le_iff_zero_less order_le_less zero_less_one less_le_trans)
  have bpos: "0 < (of_int b :: real)" using b by simp
  have "a = k * b + r" by (simp add: k_def r_def)
  then have "(of_int a :: real) = of_int k * of_int b + of_int r"
    by (metis of_int_add of_int_mult)
  then have q: "(of_int a :: real) / of_int b = of_int k + of_int r / of_int b"
    using bpos by (simp add: field_simps)
  have r1: "1 / of_int b \<le> (of_int r :: real) / of_int b"
    using r(1) bpos by (simp add: divide_right_mono)
  have "(of_int r :: real) \<le> of_int b - 1" using r(2) by (metis of_int_le_iff of_int_diff of_int_1)
  then have "(of_int r :: real) / of_int b \<le> (of_int b - 1) / of_int b"
    using bpos by (simp add: divide_right_mono)
  also have "\<dots> = 1 - 1 / of_int b" using bpos by (simp add: field_simps)
  finally have r2: "(of_int r :: real) / of_int b \<le> 1 - 1 / of_int b" .
  note c = round_double_div_close [OF a b]
  have "of_int k \<le> round_double (of_int a / of_int b)"
    and "round_double (of_int a / of_int b) < of_int k + 1"
    using c r1 r2 unfolding q by linarith+
  then show ?thesis unfolding k_def [symmetric] by (simp add: floor_unique)
qed

lemma ceiling_round_double_div:
  fixes a b :: int
  assumes a: "\<bar>a\<bar> < 2 ^ 53" and b: "1 \<le> b" "b \<le> 2 ^ 1022"
  shows "\<lceil>round_double (of_int a / of_int b)\<rceil> = - ((- a) div b)"
proof (cases "b dvd a")
  case True
  then have "- ((- a) div b) = a div b" by (simp add: dvd_neg_div)
  then show ?thesis using True a b by (simp add: round_double_div_exact)
next
  case False
  define k where "k = a div b"
  define r where "r = a mod b"
  have r: "1 \<le> r" "r \<le> b - 1"
    using False b by (simp_all add: r_def dvd_eq_mod_eq_0) (metis mod_int_pos_iff pos_mod_sign linorder_not_less int_one_le_iff_zero_less order_le_less zero_less_one less_le_trans)
  have bpos: "0 < (of_int b :: real)" using b by simp
  have abk: "a = k * b + r" by (simp add: k_def r_def)
  then have "(of_int a :: real) = of_int k * of_int b + of_int r"
    by (metis of_int_add of_int_mult)
  then have q: "(of_int a :: real) / of_int b = of_int k + of_int r / of_int b"
    using bpos by (simp add: field_simps)
  have r1: "1 / of_int b \<le> (of_int r :: real) / of_int b"
    using r(1) bpos by (simp add: divide_right_mono)
  have "(of_int r :: real) \<le> of_int b - 1" using r(2) by (metis of_int_le_iff of_int_diff of_int_1)
  then have "(of_int r :: real) / of_int b \<le> (of_int b - 1) / of_int b"
    using bpos by (simp add: divide_right_mono)
  also have "\<dots> = 1 - 1 / of_int b" using bpos by (simp add: field_simps)
  finally have r2: "(of_int r :: real) / of_int b \<le> 1 - 1 / of_int b" .
  note c = round_double_div_close [OF a b]
  have "of_int (k + 1) - 1 < round_double (of_int a / of_int b)"
    and "round_double (of_int a / of_int b) \<le> of_int (k + 1)"
    using c r1 r2 unfolding q by simp_all
  then have "\<lceil>round_double (of_int a / of_int b)\<rceil> = k + 1" by (rule ceiling_unique)
  moreover have "- ((- a) div b) = k + 1"
  proof -
    have "- a = (- k - 1) * b + (b - r)" using abk by (simp add: algebra_simps)
    moreover have "0 \<le> b - r" "b - r < b" using r by simp_all
    ultimately have "(- a) div b = - k - 1"
      by (metis div_pos_pos_trivial div_mult_self3 add.commute add.right_neutral b(1) not_one_le_zero)
    then show ?thesis by simp
  qed
  ultimately show ?thesis by simp
qed

lemma to_float_div:
  fixes a b :: int
  assumes a: "\<bar>a\<bar> < 2 ^ 53" and b: "1 \<le> b" "b \<le> 2 ^ 1022"
  shows "to_float (of_int a / of_int b) = Finite (round_double (of_int a / of_int b))"
proof -
  define x :: real where "x = of_int a / of_int b"
  have bpos: "1 \<le> (of_int b :: real)" using b by simp
  have "\<bar>round_double x - x\<bar> < 1 / of_int b" unfolding x_def by (rule round_double_div_close [OF a b])
  moreover have "1 / (of_int b :: real) \<le> 1" using bpos by simp
  moreover have "\<bar>x\<bar> \<le> \<bar>of_int a\<bar>"
  proof -
    have "\<bar>x\<bar> = \<bar>of_int a\<bar> / of_int b" using bpos by (simp add: x_def)
    also have "\<dots> \<le> \<bar>of_int a\<bar> / 1" using bpos by (intro divide_left_mono) simp_all
    finally show ?thesis by simp
  qed
  moreover have "\<bar>of_int a :: real\<bar> < 2 ^ 53"
    using a by (metis of_int_abs of_int_less_numeral_power_cancel_iff)
  ultimately have "\<bar>round_double x\<bar> < 2 ^ 53 + 1" by linarith
  moreover have "(2::real) ^ 53 + 1 < 2 ^ 1024" by simp
  ultimately have "\<not> 2 ^ 1024 \<le> round_double x" "\<not> round_double x \<le> - (2 ^ 1024)"
    by linarith+
  then show ?thesis by (simp only: to_float_def Let_def if_False x_def)
qed

section \<open>Facts about the snapper and the indexer on integer-valued floats\<close>

lemma float_add_int:
  assumes "\<bar>a + b\<bar> \<le> 2 ^ 53"
  shows "float_add (Finite (of_int a)) (Finite (of_int b)) = Finite (of_int (a + b))"
  using to_float_of_int [OF assms] by simp

lemma float_sub_int:
  assumes "\<bar>a - b\<bar> \<le> 2 ^ 53"
  shows "float_sub (Finite (of_int a)) (Finite (of_int b)) = Finite (of_int (a - b))"
  using to_float_of_int [OF assms] by (simp add: float_sub_def)

lemma float_mul_int:
  assumes "\<bar>a * b\<bar> \<le> 2 ^ 53"
  shows "float_mul (Finite (of_int a)) (Finite (of_int b)) = Finite (of_int (a * b))"
  using to_float_of_int [OF assms] by simp

lemma int_to_float_small:
  assumes "\<bar>k\<bar> \<le> 2 ^ 53"
  shows "int_to_float k = Inr (Finite (of_int k))"
  by (simp add: int_to_float_def to_float_of_int [OF assms])

lemma int_mul_float_int:
  assumes "\<bar>k\<bar> \<le> 2 ^ 53" and "\<bar>k * b\<bar> \<le> 2 ^ 53"
  shows "int_mul_float k (Finite (of_int b)) = Inr (Finite (of_int (k * b)))"
  by (simp only: int_mul_float_def int_to_float_small [OF assms(1)] bind_err_Inr
      float_mul_int [OF assms(2)])

lemma float_truediv_int:
  fixes a b :: int
  assumes "\<bar>a\<bar> < 2 ^ 53" and "1 \<le> b" and "b \<le> 2 ^ 1022"
  shows "float_truediv (Finite (of_int a)) (Finite (of_int b))
    = Inr (Finite (round_double (of_int a / of_int b)))"
  using assms(2) by (simp add: to_float_div [OF assms])

lemma div_mult_bounds:
  fixes a b :: int
  assumes "1 \<le> b"
  shows "a div b * b \<le> a" and "a < a div b * b + b" and "\<bar>a div b\<bar> \<le> \<bar>a div b * b\<bar>"
proof -
  have e: "a = a div b * b + a mod b" by simp
  have "0 \<le> a mod b" "a mod b < b" using assms by simp_all
  with e show "a div b * b \<le> a" and "a < a div b * b + b" by linarith+
  have "\<bar>a div b\<bar> * 1 \<le> \<bar>a div b\<bar> * \<bar>b\<bar>"
    by (rule mult_left_mono) (use assms in simp_all)
  then show "\<bar>a div b\<bar> \<le> \<bar>a div b * b\<bar>" by (simp add: abs_mult)
qed

lemma big_powers:
  "(2::int) ^ 50 = 1125899906842624"
  "(2::int) ^ 51 = 2251799813685248"
  "(2::int) ^ 52 = 4503599627370496"
  "(2::int) ^ 53 = 9007199254740992"
  by simp_all

lemma two_50_le_1022: "(2::int) ^ 50 \<le> 2 ^ 1022"
  by (rule power_increasing) simp_all

lemma snapped_start_int:
  fixes v origin sz :: int
  assumes v: "\<bar>v\<bar> \<le> 2 ^ 50" and o: "\<bar>origin\<bar> \<le> 2 ^ 50" and sz: "1 \<le> sz" "sz \<le> 2 ^ 50"
  shows "snapped_start (Finite (of_int v)) (Finite (of_int origin)) (Finite (of_int sz))
    = Inr (Finite (of_int (origin + (v - origin) div sz * sz)))"
proof -
  define a where "a = v - origin"
  define k where "k = a div sz"
  note d = div_mult_bounds [OF sz(1), of a, folded k_def]
  have a: "\<bar>a\<bar> \<le> 2 ^ 51" using v o by (simp add: a_def)
  have a53: "\<bar>v - origin\<bar> < 2 ^ 53" "\<bar>v - origin\<bar> \<le> 2 ^ 53"
    using a by (simp_all add: a_def)
  have sz2: "sz \<le> 2 ^ 1022" using sz(2) two_50_le_1022 by linarith
  have ks: "\<bar>k * sz\<bar> \<le> 2 ^ 53" using d a sz(2) by simp
  then have k: "\<bar>k\<bar> \<le> 2 ^ 53" using d(3) by linarith
  have s: "\<bar>origin + k * sz\<bar> \<le> 2 ^ 53" using d a sz(2) v o by (simp add: a_def)
  show ?thesis
    unfolding snapped_start_def
    by (simp only: float_sub_int [OF a53(2)] float_truediv_int [OF a53(1) sz(1) sz2]
        floor_round_double_div [OF a53(1) sz(1) sz2] bind_err_Inr math_floor.simps
        int_mul_float_int [OF k ks, unfolded k_def a_def]
        float_add_int [OF s, unfolded k_def a_def])
qed

lemma snapped_end_int:
  fixes v origin sz :: int
  assumes v: "\<bar>v\<bar> \<le> 2 ^ 50" and o: "\<bar>origin\<bar> \<le> 2 ^ 50" and sz: "1 \<le> sz" "sz \<le> 2 ^ 50"
  shows "snapped_end (Finite (of_int v)) (Finite (of_int origin)) (Finite (of_int sz))
    = Inr (Finite (of_int (origin + - ((origin - v) div sz) * sz)))"
proof -
  define a where "a = origin - v"
  define k where "k = a div sz"
  note d = div_mult_bounds [OF sz(1), of a, folded k_def]
  have a: "\<bar>a\<bar> \<le> 2 ^ 51" using v o by (simp add: a_def)
  have a53: "\<bar>v - origin\<bar> < 2 ^ 53" "\<bar>v - origin\<bar> \<le> 2 ^ 53" using a by (simp_all add: a_def)
  have sz2: "sz \<le> 2 ^ 1022" using sz(2) two_50_le_1022 by linarith
  have ks: "\<bar>- k * sz\<bar> \<le> 2 ^ 53" using d a sz(2) by simp
  then have k: "\<bar>- k\<bar> \<le> 2 ^ 53" using d(3) by simp
  have s: "\<bar>origin + - k * sz\<bar> \<le> 2 ^ 53" using d a sz(2) v o by (simp add: a_def)
  have m: "- (v - origin) = origin - v" by simp
  show ?thesis
    unfolding snapped_end_def
    by (simp only: float_sub_int [OF a53(2)] float_truediv_int [OF a53(1) sz(1) sz2]
        ceiling_round_double_div [OF a53(1) sz(1) sz2] m bind_err_Inr math_ceil.simps
        int_mul_float_int [OF k ks, unfolded k_def a_def]
        float_add_int [OF s, unfolded k_def a_def])
qed

lemma idx_from_ll_int:
  fixes x y ox oy ts :: int
  assumes "\<bar>x - ox\<bar> \<le> 2 ^ 52" and "\<bar>y - oy\<bar> \<le> 2 ^ 52" and ts: "1 \<le> ts" "ts \<le> 2 ^ 50"
  shows "idx_from_ll (Finite (of_int x)) (Finite (of_int y)) (Finite (of_int ox))
      (Finite (of_int oy)) (Finite (of_int ts))
    = Inr ((x - ox) div ts, (y - oy) div ts)"
proof -
  have x: "\<bar>x - ox\<bar> < 2 ^ 53" "\<bar>x - ox\<bar> \<le> 2 ^ 53" using assms(1) by simp_all
  have y: "\<bar>y - oy\<bar> < 2 ^ 53" "\<bar>y - oy\<bar> \<le> 2 ^ 53" using assms(2) by simp_all
  have ts2: "ts \<le> 2 ^ 1022" using ts(2) two_50_le_1022 by linarith
  show ?thesis
    unfolding idx_from_ll_def
    by (simp only: float_sub_int [OF x(2)] float_sub_int [OF y(2)]
        float_truediv_int [OF x(1) ts(1) ts2] float_truediv_int [OF y(1) ts(1) ts2]
        floor_round_double_div [OF x(1) ts(1) ts2] floor_round_double_div [OF y(1) ts(1) ts2]
        bind_err_Inr math_floor.simps)
qed

section \<open>Facts about the generator\<close>

lemma bind_err_eq_Inr: "bind_err m f = Inr y \<longleftrightarrow> (\<exists>a. m = Inr a \<and> f a = Inr y)"
  by (cases m) simp_all

lemma for_loop_append:
  assumes "\<And>i s. i \<in> set xs \<Longrightarrow> body i s = Inr (s @ g i)"
  shows "for_loop xs body s = Inr (s @ concat (map g xs))"
  using assms by (induction xs arbitrary: s) simp_all

lemma for_loop_collect:
  assumes "for_loop xs body s = Inr s'"
    and "\<And>i a b. i \<in> set xs \<Longrightarrow> body i a = Inr b \<Longrightarrow> \<exists>ys. F i = map Inr ys \<and> b = a @ ys"
  shows "\<exists>yss. concat (map F xs) = map Inr yss \<and> s' = s @ yss"
  using assms
proof (induction xs arbitrary: s)
  case Nil
  then show ?case by simp
next
  case (Cons i xs)
  from Cons.prems(1) obtain b where b: "body i s = Inr b" "for_loop xs body b = Inr s'"
    by (auto simp: bind_err_eq_Inr)
  from Cons.prems(2) [OF _ b(1)] obtain ys where ys: "F i = map Inr ys" "b = s @ ys" by auto
  have "\<exists>yss. concat (map F xs) = map Inr yss \<and> s' = b @ yss"
    by (rule Cons.IH [OF b(2)]) (use Cons.prems(2) in auto)
  then obtain yss where yss: "concat (map F xs) = map Inr yss" "s' = b @ yss" by auto
  have "concat (map F (i # xs)) = map Inr (ys @ yss) \<and> s' = s @ (ys @ yss)"
    using ys yss by simp
  then show ?case by blast
qed

lemma tile_at_Inr:
  assumes "tile_at tile_size origin_x origin_y resolution sxmin symin r c = Inr t"
  shows "\<exists>rt ct col row tile_id.
    int_mul_float r tile_size = Inr rt \<and> int_mul_float c tile_size = Inr ct \<and>
    idx_from_ll (float_add sxmin ct) (float_add symin rt) origin_x origin_y tile_size
      = Inr (col, row) \<and>
    format_tile_id_float tile_size col row resolution = Inr tile_id \<and>
    t = \<lparr>t_tile_id = tile_id, t_tile_size_ft = tile_size, t_resolution_ft = resolution,
         t_origin_x = origin_x, t_origin_y = origin_y, t_col = col, t_row = row,
         t_xmin = float_add sxmin ct, t_ymin = float_add symin rt,
         t_xmax = float_add (float_add sxmin ct) tile_size,
         t_ymax = float_add (float_add symin rt) tile_size,
         t_width = tile_size, t_height = tile_size,
         t_geometry = (float_add sxmin ct, float_add symin rt,
           float_add (float_add sxmin ct) tile_size,
           float_add (float_add symin rt) tile_size)\<rparr>"
  using assms unfolding tile_at_def Let_def bind_err_eq_Inr
  by (auto simp: bind_err_eq_Inr split: prod.splits)

lemma generate_tiles_structure:
  assumes "generate_tiles (xmin, ymin, xmax, ymax) tile_size origin_x origin_y resolution
    = Inr tiles"
  shows "\<exists>sxmin symin sxmax symax qc ncols qr nrows.
    snapped_start xmin origin_x tile_size = Inr sxmin \<and>
    snapped_start ymin origin_y tile_size = Inr symin \<and>
    snapped_end xmax origin_x tile_size = Inr sxmax \<and>
    snapped_end ymax origin_y tile_size = Inr symax \<and>
    float_truediv (float_sub sxmax sxmin) tile_size = Inr qc \<and>
    py_round_float qc = Inr ncols \<and>
    float_truediv (float_sub symax symin) tile_size = Inr qr \<and>
    py_round_float qr = Inr nrows \<and>
    concat (map (\<lambda>r. map (tile_at tile_size origin_x origin_y resolution sxmin symin r)
                         (py_range ncols)) (py_range nrows)) = map Inr tiles"
proof -
  from assms obtain sxmin symin sxmax symax qc ncols qr nrows where
    s: "snapped_start xmin origin_x tile_size = Inr sxmin"
      "snapped_start ymin origin_y tile_size = Inr symin"
      "snapped_end xmax origin_x tile_size = Inr sxmax"
      "snapped_end ymax origin_y tile_size = Inr symax"
      "float_truediv (float_sub sxmax sxmin) tile_size = Inr qc"
      "py_round_float qc = Inr ncols"
      "float_truediv (float_sub symax symin) tile_size = Inr qr"
      "py_round_float qr = Inr nrows"
    and loop: "for_loop (py_range nrows) (\<lambda>r records.
          bind_err (int_mul_float r tile_size) (\<lambda>rt.
            let y0 = float_add symin rt;
                y1 = float_add y0 tile_size
            in for_loop (py_range ncols) (\<lambda>c records.
                 bind_err (int_mul_float c tile_size) (\<lambda>ct.
                   let x0 = float_add sxmin ct;
                       x1 = float_add x0 tile_size
                   in bind_err (idx_from_ll x0 y0 origin_x origin_y tile_size) (\<lambda>(col, row).
                      bind_err (format_tile_id_float tile_size col row resolution) (\<lambda>tile_id.
                        let rec = \<lparr>t_tile_id = tile_id,
                                   t_tile_size_ft = tile_size,
                                   t_resolution_ft = resolution,
                                   t_origin_x = origin_x,
                                   t_origin_y = origin_y,
                                   t_col = col,
                                   t_row = row,
                                   t_xmin = x0,
                                   t_ymin = y0,
                                   t_xmax = x1,
                                   t_ymax = y1,
                                   t_width = tile_size,
                                   t_height = tile_size,
                                   t_geometry = (x0, y0, x1, y1)\<rparr>
                        in Inr (records @ [rec]))))) records)) [] = Inr tiles"
    unfolding generate_tiles_def prod.case bind_err_eq_Inr by blast
  have "\<exists>yss. concat (map (\<lambda>r. map (tile_at tile_size origin_x origin_y resolution sxmin symin r)
                         (py_range ncols)) (py_range nrows)) = map Inr yss \<and> tiles = [] @ yss"
  proof (rule for_loop_collect [OF loop])
    fix r :: int and a b :: "tile list"
    assume "bind_err (int_mul_float r tile_size) (\<lambda>rt.
            let y0 = float_add symin rt;
                y1 = float_add y0 tile_size
            in for_loop (py_range ncols) (\<lambda>c records.
                 bind_err (int_mul_float c tile_size) (\<lambda>ct.
                   let x0 = float_add sxmin ct;
                       x1 = float_add x0 tile_size
                   in bind_err (idx_from_ll x0 y0 origin_x origin_y tile_size) (\<lambda>(col, row).
                      bind_err (format_tile_id_float tile_size col row resolution) (\<lambda>tile_id.
                        let rec = \<lparr>t_tile_id = tile_id,
                                   t_tile_size_ft = tile_size,
                                   t_resolution_ft = resolution,
                                   t_origin_x = origin_x,
                                   t_origin_y = origin_y,
                                   t_col = col,
                                   t_row = row,
                                   t_xmin = x0,
                                   t_ymin = y0,
                                   t_xmax = x1,
                                   t_ymax = y1,
                                   t_width = tile_size,
                                   t_height = tile_size,
                                   t_geometry = (x0, y0, x1, y1)\<rparr>
                        in Inr (records @ [rec]))))) a) = Inr b"
    then obtain rt where rt: "int_mul_float r tile_size = Inr rt"
      and inner: "for_loop (py_range ncols) (\<lambda>c records.
                 bind_err (int_mul_float c tile_size) (\<lambda>ct.
                   bind_err (idx_from_ll (float_add sxmin ct) (float_add symin rt)
                       origin_x origin_y tile_size) (\<lambda>(col, row).
                      bind_err (format_tile_id_float tile_size col row resolution) (\<lambda>tile_id.
                        Inr (records @ [\<lparr>t_tile_id = tile_id,
                                   t_tile_size_ft = tile_size,
                                   t_resolution_ft = resolution,
                                   t_origin_x = origin_x,
                                   t_origin_y = origin_y,
                                   t_col = col,
                                   t_row = row,
                                   t_xmin = float_add sxmin ct,
                                   t_ymin = float_add symin rt,
                                   t_xmax = float_add (float_add sxmin ct) tile_size,
                                   t_ymax = float_add (float_add symin rt) tile_size,
                                   t_width = tile_size,
                                   t_height = tile_size,
                                   t_geometry = (float_add sxmin ct, float_add symin rt,
                                     float_add (float_add sxmin ct) tile_size,
                                     float_add (float_add symin rt) tile_size)\<rparr>]))))) a = Inr b"
      unfolding bind_err_eq_Inr Let_def by blast
    have "\<exists>ys. concat (map (\<lambda>c. [tile_at tile_size origin_x origin_y resolution sxmin symin r c])
        (py_range ncols)) = map Inr ys \<and> b = a @ ys"
    proof (rule for_loop_collect [OF inner])
      fix c :: int and a' b' :: "tile list"
      assume "bind_err (int_mul_float c tile_size) (\<lambda>ct.
                   bind_err (idx_from_ll (float_add sxmin ct) (float_add symin rt)
                       origin_x origin_y tile_size) (\<lambda>(col, row).
                      bind_err (format_tile_id_float tile_size col row resolution) (\<lambda>tile_id.
                        Inr (a' @ [\<lparr>t_tile_id = tile_id,
                                   t_tile_size_ft = tile_size,
                                   t_resolution_ft = resolution,
                                   t_origin_x = origin_x,
                                   t_origin_y = origin_y,
                                   t_col = col,
                                   t_row = row,
                                   t_xmin = float_add sxmin ct,
                                   t_ymin = float_add symin rt,
                                   t_xmax = float_add (float_add sxmin ct) tile_size,
                                   t_ymax = float_add (float_add symin rt) tile_size,
                                   t_width = tile_size,
                                   t_height = tile_size,
                                   t_geometry = (float_add sxmin ct, float_add symin rt,
                                     float_add (float_add sxmin ct) tile_size,
                                     float_add (float_add symin rt) tile_size)\<rparr>])))) = Inr b'"
      then obtain t where "tile_at tile_size origin_x origin_y resolution sxmin symin r c = Inr t"
        and "b' = a' @ [t]"
        unfolding tile_at_def Let_def
        by (auto simp: bind_err_eq_Inr rt split: prod.splits)
      then show "\<exists>ys. [tile_at tile_size origin_x origin_y resolution sxmin symin r c]
          = map Inr ys \<and> b' = a' @ ys"
        by simp
    qed
    then show "\<exists>ys. map (tile_at tile_size origin_x origin_y resolution sxmin symin r)
        (py_range ncols) = map Inr ys \<and> b = a @ ys"
      by (simp add: concat_map_singleton)
  qed
  then have "concat (map (\<lambda>r. map (tile_at tile_size origin_x origin_y resolution sxmin symin r)
                         (py_range ncols)) (py_range nrows)) = map Inr tiles"
    by auto
  with s show ?thesis by blast
qed

lemma format_tile_id_float_Finite:
  "format_tile_id_float (Finite tile_size) col row (Finite resolution)
     = Inr (format_tile_id tile_size col row resolution)"
  by (simp add: format_tile_id_float_def format_tile_id_def Let_def)

lemma tile_at_int:
  fixes ts ox oy kx ky r c :: int and res :: real
  assumes ts: "1 \<le> ts" "ts \<le> 2 ^ 50"
    and r: "\<bar>r\<bar> \<le> 2 ^ 53" "\<bar>r * ts\<bar> \<le> 2 ^ 53"
    and c: "\<bar>c\<bar> \<le> 2 ^ 53" "\<bar>c * ts\<bar> \<le> 2 ^ 53"
    and x: "\<bar>(kx + c) * ts\<bar> \<le> 2 ^ 52" "\<bar>ox + (kx + c) * ts\<bar> \<le> 2 ^ 53"
      "\<bar>ox + (kx + c) * ts + ts\<bar> \<le> 2 ^ 53"
    and y: "\<bar>(ky + r) * ts\<bar> \<le> 2 ^ 52" "\<bar>oy + (ky + r) * ts\<bar> \<le> 2 ^ 53"
      "\<bar>oy + (ky + r) * ts + ts\<bar> \<le> 2 ^ 53"
  shows "tile_at (Finite (of_int ts)) (Finite (of_int ox)) (Finite (of_int oy)) (Finite res)
      (Finite (of_int (ox + kx * ts))) (Finite (of_int (oy + ky * ts))) r c
    = Inr (grid_tile ts ox oy res (kx + c) (ky + r))"
proof -
  define x0 where "x0 = ox + (kx + c) * ts"
  define y0 where "y0 = oy + (ky + r) * ts"
  have ex: "ox + kx * ts + c * ts = x0" by (simp add: x0_def algebra_simps)
  have ey: "oy + ky * ts + r * ts = y0" by (simp add: y0_def algebra_simps)
  have 1: "int_mul_float r (Finite (of_int ts)) = Inr (Finite (of_int (r * ts)))"
    using r by (rule int_mul_float_int)
  have 2: "int_mul_float c (Finite (of_int ts)) = Inr (Finite (of_int (c * ts)))"
    using c by (rule int_mul_float_int)
  have 3: "float_add (Finite (of_int (oy + ky * ts))) (Finite (of_int (r * ts)))
      = Finite (of_int y0)"
    using float_add_int [of "oy + ky * ts" "r * ts"] y(2) by (simp only: ey y0_def [symmetric])
  have 4: "float_add (Finite (of_int (ox + kx * ts))) (Finite (of_int (c * ts)))
      = Finite (of_int x0)"
    using float_add_int [of "ox + kx * ts" "c * ts"] x(2) by (simp only: ex x0_def [symmetric])
  have 5: "float_add (Finite (of_int y0)) (Finite (of_int ts)) = Finite (of_int (y0 + ts))"
    using y(3) unfolding y0_def [symmetric] by (rule float_add_int)
  have 6: "float_add (Finite (of_int x0)) (Finite (of_int ts)) = Finite (of_int (x0 + ts))"
    using x(3) unfolding x0_def [symmetric] by (rule float_add_int)
  have dx: "x0 - ox = (kx + c) * ts" and dy: "y0 - oy = (ky + r) * ts"
    by (simp_all add: x0_def y0_def)
  have 7: "idx_from_ll (Finite (of_int x0)) (Finite (of_int y0)) (Finite (of_int ox))
      (Finite (of_int oy)) (Finite (of_int ts)) = Inr (kx + c, ky + r)"
    using idx_from_ll_int [of x0 ox y0 oy ts] x(1) y(1) ts by (simp add: dx dy)
  show ?thesis
    unfolding tile_at_def
    by (simp only: 1 2 3 [unfolded y0_def] 4 [unfolded x0_def] 5 [unfolded y0_def]
        6 [unfolded x0_def] 7 [unfolded x0_def y0_def] bind_err_Inr Let_def prod.case
        format_tile_id_float_Finite grid_tile_def)
qed

lemma set_py_range: "set (py_range n) = {0..<n}"
  by (auto simp: py_range_def)

lemma length_py_range [simp]: "length (py_range n) = nat n"
  by (simp add: py_range_def)

lemma nth_py_range: "k < nat n \<Longrightarrow> py_range n ! k = int k"
  by (simp add: py_range_def)

lemma axis_span:
  fixes lo hi origin ts :: int
  assumes "\<bar>lo\<bar> \<le> 2 ^ 50" "\<bar>hi\<bar> \<le> 2 ^ 50" "\<bar>origin\<bar> \<le> 2 ^ 50" "1 \<le> ts" "ts \<le> 2 ^ 50"
  defines "k \<equiv> (lo - origin) div ts"
    and "n \<equiv> - ((origin - hi) div ts) - (lo - origin) div ts"
  shows "origin + - ((origin - hi) div ts) * ts - (origin + k * ts) = n * ts"
    and "\<bar>n * ts\<bar> \<le> 2 ^ 52"
    and "lo - origin - ts < k * ts" and "k * ts \<le> lo - origin"
    and "hi - origin \<le> (k + n) * ts" and "(k + n) * ts < hi - origin + ts"
proof -
  define kb where "kb = (origin - hi) div ts"
  note d1 = div_mult_bounds [OF assms(4), of "lo - origin", folded k_def]
  note d2 = div_mult_bounds [OF assms(4), of "origin - hi", folded kb_def]
  have n: "n * ts = - (kb * ts) - k * ts" by (simp add: n_def kb_def k_def algebra_simps)
  show "origin + - ((origin - hi) div ts) * ts - (origin + k * ts) = n * ts"
    by (simp add: n kb_def)
  show "\<bar>n * ts\<bar> \<le> 2 ^ 52" using d1(1,2) d2(1,2) assms(1-5) unfolding n by simp
  show "lo - origin - ts < k * ts" "k * ts \<le> lo - origin" using d1(1,2) by simp_all
  have kn: "(k + n) * ts = - (kb * ts)" by (simp add: n_def kb_def k_def algebra_simps)
  show "hi - origin \<le> (k + n) * ts" "(k + n) * ts < hi - origin + ts"
    using d2(1,2) unfolding kn by simp_all
qed

lemma axis_cell:
  fixes lo hi origin ts k n c :: int
  assumes b: "\<bar>lo\<bar> \<le> 2 ^ 50" "\<bar>hi\<bar> \<le> 2 ^ 50" "\<bar>origin\<bar> \<le> 2 ^ 50" "1 \<le> ts" "ts \<le> 2 ^ 50"
    and k: "lo - origin - ts < k * ts" "k * ts \<le> lo - origin"
    and n: "hi - origin \<le> (k + n) * ts" "(k + n) * ts < hi - origin + ts"
    and c: "0 \<le> c" "c < n"
  shows "\<bar>c\<bar> \<le> 2 ^ 53" and "\<bar>c * ts\<bar> \<le> 2 ^ 53" and "\<bar>(k + c) * ts\<bar> \<le> 2 ^ 52"
    and "\<bar>origin + (k + c) * ts\<bar> \<le> 2 ^ 53" and "\<bar>origin + (k + c) * ts + ts\<bar> \<le> 2 ^ 53"
proof -
  have c0: "0 \<le> c * ts" using c(1) b(4) by simp
  have "(c + 1) * ts \<le> n * ts" by (rule mult_right_mono) (use c b(4) in simp_all)
  then have c1: "c * ts + ts \<le> n * ts" by (simp add: algebra_simps)
  have "c * 1 \<le> c * ts" by (rule mult_left_mono) (use c b(4) in simp_all)
  then have c2: "c \<le> c * ts" by simp
  have kn: "(k + n) * ts = k * ts + n * ts" and kc: "(k + c) * ts = k * ts + c * ts"
    by (simp_all add: algebra_simps)
  show "\<bar>c * ts\<bar> \<le> 2 ^ 53" using c0 c1 k n b unfolding kn by simp
  then show "\<bar>c\<bar> \<le> 2 ^ 53" using c2 c(1) c0 by simp
  show "\<bar>(k + c) * ts\<bar> \<le> 2 ^ 52" using c0 c1 k n b unfolding kn kc by simp
  show "\<bar>origin + (k + c) * ts\<bar> \<le> 2 ^ 53" using c0 c1 k n b unfolding kn kc by simp
  show "\<bar>origin + (k + c) * ts + ts\<bar> \<le> 2 ^ 53" using c0 c1 k n b unfolding kn kc by simp
qed

lemma span_quotient:
  fixes n ts :: int
  assumes "\<bar>n * ts\<bar> \<le> 2 ^ 52" and "1 \<le> ts" and "ts \<le> 2 ^ 50"
  shows "float_truediv (Finite (of_int (n * ts))) (Finite (of_int ts)) = Inr (Finite (of_int n))"
proof -
  have a: "\<bar>n * ts\<bar> < 2 ^ 53" using assms(1) by simp
  have ts2: "ts \<le> 2 ^ 1022" using assms(3) two_50_le_1022 by linarith
  have "round_double (of_int (n * ts) / of_int ts) = of_int (n * ts div ts)"
    using a assms(2) by (rule round_double_div_exact) simp
  also have "n * ts div ts = n" using assms(2) by simp
  finally show ?thesis by (simp only: float_truediv_int [OF a assms(2) ts2])
qed

lemma generate_tiles_int:
  fixes xmin ymin xmax ymax ox oy ts :: int and res :: real
  assumes bx: "\<bar>xmin\<bar> \<le> 2 ^ 50" "\<bar>xmax\<bar> \<le> 2 ^ 50" "\<bar>ox\<bar> \<le> 2 ^ 50"
    and bdy: "\<bar>ymin\<bar> \<le> 2 ^ 50" "\<bar>ymax\<bar> \<le> 2 ^ 50" "\<bar>oy\<bar> \<le> 2 ^ 50"
    and ts: "1 \<le> ts" "ts \<le> 2 ^ 50"
  defines "kx \<equiv> (xmin - ox) div ts" and "ky \<equiv> (ymin - oy) div ts"
    and "nx \<equiv> - ((ox - xmax) div ts) - (xmin - ox) div ts"
    and "ny \<equiv> - ((oy - ymax) div ts) - (ymin - oy) div ts"
  shows "generate_tiles (Finite (of_int xmin), Finite (of_int ymin), Finite (of_int xmax),
        Finite (of_int ymax)) (Finite (of_int ts)) (Finite (of_int ox)) (Finite (of_int oy))
        (Finite res)
    = Inr (concat (map (\<lambda>r. map (\<lambda>c. grid_tile ts ox oy res (kx + c) (ky + r)) (py_range nx))
                       (py_range ny)))"
proof -
  note ax = axis_span [OF bx ts, folded kx_def nx_def]
  note ay = axis_span [OF bdy ts, folded ky_def ny_def]
  let ?T = "Finite (of_int ts)" and ?OX = "Finite (of_int ox)" and ?OY = "Finite (of_int oy)"
  let ?SX = "Finite (of_int (ox + kx * ts))" and ?SY = "Finite (of_int (oy + ky * ts))"
  have s1: "snapped_start (Finite (of_int xmin)) ?OX ?T = Inr ?SX"
    unfolding kx_def using bx(1,3) ts by (rule snapped_start_int)
  have s2: "snapped_start (Finite (of_int ymin)) ?OY ?T = Inr ?SY"
    unfolding ky_def using bdy(1,3) ts by (rule snapped_start_int)
  have s3: "snapped_end (Finite (of_int xmax)) ?OX ?T
      = Inr (Finite (of_int (ox + - ((ox - xmax) div ts) * ts)))"
    using bx(2,3) ts by (rule snapped_end_int)
  have s4: "snapped_end (Finite (of_int ymax)) ?OY ?T
      = Inr (Finite (of_int (oy + - ((oy - ymax) div ts) * ts)))"
    using bdy(2,3) ts by (rule snapped_end_int)
  have d1: "float_sub (Finite (of_int (ox + - ((ox - xmax) div ts) * ts))) ?SX
      = Finite (of_int (nx * ts))"
    using float_sub_int [of "ox + - ((ox - xmax) div ts) * ts" "ox + kx * ts"] ax(2)
    unfolding ax(1) by simp
  have d2: "float_sub (Finite (of_int (oy + - ((oy - ymax) div ts) * ts))) ?SY
      = Finite (of_int (ny * ts))"
    using float_sub_int [of "oy + - ((oy - ymax) div ts) * ts" "oy + ky * ts"] ay(2)
    unfolding ay(1) by simp
  have q1: "float_truediv (Finite (of_int (nx * ts))) ?T = Inr (Finite (of_int nx))"
    using ax(2) ts by (rule span_quotient)
  have q2: "float_truediv (Finite (of_int (ny * ts))) ?T = Inr (Finite (of_int ny))"
    using ay(2) ts by (rule span_quotient)
  let ?inner = "\<lambda>rt c records.
                 bind_err (int_mul_float c ?T) (\<lambda>ct.
                   let x0 = float_add ?SX ct;
                       x1 = float_add x0 ?T
                   in bind_err (idx_from_ll x0 (float_add ?SY rt) ?OX ?OY ?T) (\<lambda>(col, row).
                      bind_err (format_tile_id_float ?T col row (Finite res)) (\<lambda>tile_id.
                        let rec = \<lparr>t_tile_id = tile_id,
                                   t_tile_size_ft = ?T,
                                   t_resolution_ft = Finite res,
                                   t_origin_x = ?OX,
                                   t_origin_y = ?OY,
                                   t_col = col,
                                   t_row = row,
                                   t_xmin = x0,
                                   t_ymin = float_add ?SY rt,
                                   t_xmax = x1,
                                   t_ymax = float_add (float_add ?SY rt) ?T,
                                   t_width = ?T,
                                   t_height = ?T,
                                   t_geometry = (x0, float_add ?SY rt, x1,
                                      float_add (float_add ?SY rt) ?T)\<rparr>
                        in Inr (records @ [rec]))))"
  let ?outer = "\<lambda>r records. bind_err (int_mul_float r ?T) (\<lambda>rt.
      for_loop (py_range nx) (?inner rt) records)"
  have "generate_tiles (Finite (of_int xmin), Finite (of_int ymin), Finite (of_int xmax),
        Finite (of_int ymax)) ?T ?OX ?OY (Finite res)
      = for_loop (py_range ny) ?outer []"
    unfolding generate_tiles_def
    by (simp only: prod.case s1 s2 s3 s4 d1 d2 q1 q2 bind_err_Inr py_round_float.simps
        py_round_of_int Let_def)
  also have "\<dots> = Inr ([] @ concat (map (\<lambda>r. map (\<lambda>c. grid_tile ts ox oy res (kx + c) (ky + r))
      (py_range nx)) (py_range ny)))"
  proof (rule for_loop_append)
    fix r :: int and s :: "tile list"
    assume "r \<in> set (py_range ny)"
    then have r: "0 \<le> r" "r < ny" by (simp_all add: set_py_range)
    note cy = axis_cell [OF bdy ts ay(3-6) r]
    have m: "int_mul_float r ?T = Inr (Finite (of_int (r * ts)))"
      using cy(1,2) by (rule int_mul_float_int)
    have "for_loop (py_range nx) (?inner (Finite (of_int (r * ts)))) s
        = Inr (s @ concat (map (\<lambda>c. [grid_tile ts ox oy res (kx + c) (ky + r)]) (py_range nx)))"
    proof (rule for_loop_append)
      fix c :: int and s' :: "tile list"
      assume "c \<in> set (py_range nx)"
      then have c: "0 \<le> c" "c < nx" by (simp_all add: set_py_range)
      note cx = axis_cell [OF bx ts ax(3-6) c]
      have "tile_at ?T ?OX ?OY (Finite res) ?SX ?SY r c
          = Inr (grid_tile ts ox oy res (kx + c) (ky + r))"
        using ts cy(1,2) cx(1,2) cx(3-5) cy(3-5) by (rule tile_at_int)
      then show "?inner (Finite (of_int (r * ts))) c s'
          = Inr (s' @ [grid_tile ts ox oy res (kx + c) (ky + r)])"
        unfolding tile_at_def m bind_err_Inr Let_def
        by (auto simp: bind_err_eq_Inr split: prod.splits)
    qed
    then show "?outer r s = Inr (s @ map (\<lambda>c. grid_tile ts ox oy res (kx + c) (ky + r))
        (py_range nx))"
      by (simp add: m concat_map_singleton)
  qed
  finally show ?thesis by simp
qed

section \<open>Evaluating float operations\<close>

lemma to_float_eval:
  assumes "2 powi L \<le> \<bar>x\<bar>" and "\<bar>x\<bar> < 2 powi (L + 1)"
    and "\<bar>x / 2 powi max (L - 52) (- 1074) - of_int m\<bar> < 1 / 2"
    and "\<bar>of_int m * 2 powi max (L - 52) (- 1074)\<bar> < (2::real) ^ 1024"
  shows "to_float x = Finite (of_int m * 2 powi max (L - 52) (- 1074))"
proof -
  have "round_double x = of_int m * 2 powi max (L - 52) (- 1074)"
    by (simp only: round_double_eval [OF assms(1,2)] py_round_unique [OF assms(3)])
  moreover have "\<not> 2 ^ 1024 \<le> (of_int m :: real) * 2 powi max (L - 52) (- 1074)"
    "\<not> of_int m * 2 powi max (L - 52) (- 1074) \<le> - ((2::real) ^ 1024)"
    using assms(4) by linarith+
  ultimately show ?thesis by (simp only: to_float_def Let_def if_False)
qed

lemma to_float_exact:
  assumes "x = of_int m * 2 powi e" and "\<bar>m\<bar> \<le> 2 ^ 53" and "- 1074 \<le> e"
    and "\<bar>x\<bar> < 2 ^ 1024"
  shows "to_float x = Finite x"
proof -
  have "round_double x = x" using assms(1-3) by (rule round_double_exact)
  moreover have "\<not> 2 ^ 1024 \<le> x" "\<not> x \<le> - (2 ^ 1024)" using assms(4) by linarith+
  ultimately show ?thesis by (simp only: to_float_def Let_def if_False)
qed

lemma to_float_0 [simp]: "to_float 0 = Finite 0"
  by (simp add: to_float_def)

lemma sub_zero: "float_sub (Finite a) (Finite 0) = to_float a"
  by (simp add: float_sub_def)






lemma floor_neg_one [simp]: "\<lfloor>- 1 :: real\<rfloor> = - 1"
  by (rule floor_unique) simp_all

lemma ceiling_neg_one [simp]: "\<lceil>- 1 :: real\<rceil> = - 1"
  by (rule ceiling_unique) simp_all

lemma c8_h: "to_float (1 / 2) = Finite (1 / 2)"
  by (rule to_float_exact [of _ 1 "- 1"]) (simp_all add: power_int_minus)

lemma c8_q: "to_float (1 / 2 / (3602879701896397 / 2 ^ 55)) = Finite 5"
  using to_float_eval [of 2 "1 / 2 / (3602879701896397 / 2 ^ 55)" 5629499534213120]
  by (simp add: power_int_minus)

lemma c8_floor: "\<lfloor>(1 / 2 - 0) / (3602879701896397 / 2 ^ 55) :: real\<rfloor> = 4"
  by (rule floor_unique) simp_all

section \<open>Facts for evaluating the formatter and the generator\<close>

lemma length_concat_uniform:
  "\<forall>xs\<in>set xss. length xs = n \<Longrightarrow> length (concat xss) = length xss * n"
  by (induction xss) simp_all

lemma nth_concat_uniform:
  "\<forall>xs\<in>set xss. length xs = n \<Longrightarrow> r < length xss \<Longrightarrow> c < n \<Longrightarrow>
     concat xss ! (r * n + c) = xss ! r ! c"
proof (induction xss arbitrary: r)
  case Nil
  then show ?case by simp
next
  case (Cons xs xss)
  show ?case
  proof (cases r)
    case 0
    with Cons.prems show ?thesis by (simp add: nth_append)
  next
    case (Suc r')
    have "length xs = n" using Cons.prems by simp
    moreover have "concat xss ! (r' * n + c) = xss ! r' ! c"
      using Cons.IH [of r'] Cons.prems Suc by simp
    ultimately show ?thesis using Suc by (simp add: nth_append add.assoc)
  qed
qed

lemma digits_0: "digits 0 = ''0''"
  by (simp add: digits.simps digit_char_def)

lemma digits_1: "digits (Suc 0) = ''1''"
  by (simp add: digits.simps digit_char_def)

lemma digits_10: "digits 10 = ''10''"
  by (simp add: digits.simps digit_char_def)

lemma digits_32: "digits 32 = ''32''"
  by (simp add: digits.simps digit_char_def)

lemma digits_98304: "digits 98304 = ''98304''"
  by (simp add: digits.simps digit_char_def)

lemma replicate_5: "replicate 5 x = [x, x, x, x, x]"
  by (simp add: numeral_eq_Suc)

lemma py_round_numeral [simp]: "py_round (numeral n) = numeral n"
  using py_round_of_int [of "numeral n"] by simp

lemma py_round_0 [simp]: "py_round 0 = 0"
  using py_round_of_int [of 0] by simp

lemma py_round_1 [simp]: "py_round 1 = 1"
  using py_round_of_int [of 1] by simp

lemma mod512_mod16: "pixels mod 16 = 0" if "pixels mod 512 = 0" for pixels :: int
proof -
  from that have "512 dvd pixels" by (simp add: dvd_eq_mod_eq_0)
  moreover have "(16::int) dvd 512" by simp
  ultimately have "16 dvd pixels" by (rule dvd_trans [rotated])
  then show ?thesis by (simp add: dvd_eq_mod_eq_0)
qed

lemma fmt_0_0: "format_tile_id 98304 0 0 32 = ''T98304_R32_C+000000_R+000000''"
  by (simp add: format_tile_id_def py_str_int_def py_format_plus_zero_d_def Let_def
      digits_0 digits_32 digits_98304 replicate_5)

lemma fmt_m1_m1: "format_tile_id 98304 (- 1) (- 1) 32 = ''T98304_R32_C-000001_R-000001''"
  by (simp add: format_tile_id_def py_str_int_def py_format_plus_zero_d_def Let_def
      digits_1 digits_32 digits_98304 replicate_5)

lemma fmt_10_0_0: "format_tile_id 10 0 0 1 = ''T10_R1_C+000000_R+000000''"
  by (simp add: format_tile_id_def py_str_int_def py_format_plus_zero_d_def Let_def
      digits_0 digits_1 digits_10 replicate_5)

lemma py_range_3: "py_range 3 = [0, 1, 2]"
  by (simp add: py_range_def upto_rec1)

lemma py_range_1: "py_range 1 = [0]"
  by (simp add: py_range_def upto_rec1)

lemma generate_tiles_nth:
  assumes "concat (map (\<lambda>r. map (f r) (py_range ncols)) (py_range nrows)) = map Inr tiles"
  shows "length tiles = nat nrows * nat ncols"
    and "r < nat nrows \<Longrightarrow> c < nat ncols \<Longrightarrow> f (int r) (int c) = Inr (tiles ! (r * nat ncols + c))"
proof -
  let ?xss = "map (\<lambda>r. map (f r) (py_range ncols)) (py_range nrows)"
  have u: "\<forall>xs\<in>set ?xss. length xs = nat ncols" by auto
  have "length (concat ?xss) = length ?xss * nat ncols" using u by (rule length_concat_uniform)
  then show len: "length tiles = nat nrows * nat ncols"
    using arg_cong [OF assms, of length] by simp
  assume rc: "r < nat nrows" "c < nat ncols"
  then have r': "r < length ?xss" by simp
  have "r * nat ncols + c < nat nrows * nat ncols"
  proof -
    have "r * nat ncols + c < r * nat ncols + nat ncols" using rc by simp
    also have "\<dots> = (r + 1) * nat ncols" by simp
    also have "\<dots> \<le> nat nrows * nat ncols" using rc by (intro mult_le_mono1) simp
    finally show ?thesis .
  qed
  then have k: "r * nat ncols + c < length tiles" using len by simp
  have "concat ?xss ! (r * nat ncols + c) = ?xss ! r ! c"
    using u r' rc(2) by (rule nth_concat_uniform)
  also have "\<dots> = f (int r) (int c)" using rc by (simp add: nth_py_range)
  finally have "f (int r) (int c) = map Inr tiles ! (r * nat ncols + c)" using assms by simp
  then show "f (int r) (int c) = Inr (tiles ! (r * nat ncols + c))" using k by simp
qed

lemma py_range_2: "py_range 2 = [0, 1]"
  by (simp add: py_range_def upto_rec1)

lemma py_range_nonpos: "n \<le> 0 \<Longrightarrow> py_range n = []"
  by (simp add: py_range_def)

lemma gen_inverted:
  "generate_tiles (Finite 10, Finite 10, Finite (- 10), Finite (- 10)) (Finite 1) (Finite 0)
     (Finite 0) (Finite 1) = Inr []"
  using generate_tiles_int [of 10 "- 10" 0 10 "- 10" 0 1 1] by (simp add: py_range_nonpos)

lemma gen_2x3:
  "generate_tiles (Finite 0, Finite 0, Finite 20, Finite 30) (Finite 10) (Finite 0) (Finite 0)
     (Finite 1)
   = Inr (concat (map (\<lambda>r. map (\<lambda>c. grid_tile 10 0 0 1 c r) [0, 1]) [0, 1, 2]))"
  using generate_tiles_int [of 0 20 0 0 30 0 10 1] by (simp add: py_range_2 py_range_3)

lemma to_float_numeral:
  "numeral n \<le> (2::int) ^ 53 \<Longrightarrow> to_float (numeral n) = Finite (numeral n)"
  using to_float_of_int [of "numeral n"] by simp

lemma int_mul_float_1_10: "int_mul_float 1 (Finite 10) = Inr (Finite 10)"
  using int_mul_float_int [of 1 10] by simp

lemma float_add_0_10: "float_add (Finite 0) (Finite 10) = Finite 10"
  using float_add_int [of 0 10] by simp

section \<open>Errors of the snapper; examples of generated grids\<close>

lemma float_truediv_errors: "float_truediv a b = Inl e \<Longrightarrow> e = ZeroDivisionError"
  by (cases a; cases b) (auto split: if_splits)

lemma math_floor_errors:
  "math_floor q = Inl e \<Longrightarrow> e \<in> {OverflowError, ValueError NaNToInteger}"
  by (cases q) auto

lemma math_ceil_errors:
  "math_ceil q = Inl e \<Longrightarrow> e \<in> {OverflowError, ValueError NaNToInteger}"
  by (cases q) auto

lemma int_mul_float_errors: "int_mul_float k x = Inl e \<Longrightarrow> e = OverflowError"
  by (auto simp: int_mul_float_def int_to_float_def bind_err_def
      split: sum.splits pyfloat.splits)

lemma snapped_start_errors:
  "snapped_start v origin sz = Inl e \<Longrightarrow>
     e \<in> {ZeroDivisionError, OverflowError, ValueError NaNToInteger}"
  unfolding snapped_start_def
  by (auto simp: bind_err_def split: sum.splits
      dest: float_truediv_errors math_floor_errors int_mul_float_errors)

lemma snapped_end_errors:
  "snapped_end v origin sz = Inl e \<Longrightarrow>
     e \<in> {ZeroDivisionError, OverflowError, ValueError NaNToInteger}"
  unfolding snapped_end_def
  by (auto simp: bind_err_def split: sum.splits
      dest: float_truediv_errors math_ceil_errors int_mul_float_errors)

lemma snapped_start_nonfinite:
  "\<not> is_finite v \<Longrightarrow> \<exists>e. snapped_start v origin sz = Inl e"
  unfolding snapped_start_def
  by (cases v; cases origin; cases sz)
    (auto simp: float_sub_def signed_inf_def)

lemma snapped_end_nonfinite:
  "\<not> is_finite v \<Longrightarrow> \<exists>e. snapped_end v origin sz = Inl e"
  unfolding snapped_end_def
  by (cases v; cases origin; cases sz)
    (auto simp: float_sub_def signed_inf_def)

lemma generate_tiles_snap_error:
  assumes "(\<exists>e. snapped_start xmin origin_x tile_size = Inl e) \<or>
    (\<exists>e. snapped_start ymin origin_y tile_size = Inl e) \<or>
    (\<exists>e. snapped_end xmax origin_x tile_size = Inl e) \<or>
    (\<exists>e. snapped_end ymax origin_y tile_size = Inl e)"
  shows "\<exists>e. generate_tiles (xmin, ymin, xmax, ymax) tile_size origin_x origin_y resolution
      = Inl e \<and> e \<in> {ZeroDivisionError, OverflowError, ValueError NaNToInteger}"
proof (cases "snapped_start xmin origin_x tile_size")
  case (Inl e)
  then show ?thesis using snapped_start_errors [OF Inl] by (simp add: generate_tiles_def)
next
  case a: (Inr a)
  show ?thesis
  proof (cases "snapped_start ymin origin_y tile_size")
    case (Inl e)
    then show ?thesis using snapped_start_errors [OF Inl] a by (simp add: generate_tiles_def)
  next
    case b: (Inr b)
    show ?thesis
    proof (cases "snapped_end xmax origin_x tile_size")
      case (Inl e)
      then show ?thesis using snapped_end_errors [OF Inl] a b by (simp add: generate_tiles_def)
    next
      case c: (Inr c)
      show ?thesis
      proof (cases "snapped_end ymax origin_y tile_size")
        case (Inl e)
        then show ?thesis
          using snapped_end_errors [OF Inl] a b c by (simp add: generate_tiles_def)
      next
        case (Inr d)
        with a b c assms show ?thesis by simp
      qed
    qed
  qed
qed

lemma gen_1x1_inverted:
  "generate_tiles (Finite 5, Finite 5, Finite 3, Finite 3) (Finite 10) (Finite 0) (Finite 0)
     (Finite 1) = Inr [grid_tile 10 0 0 1 0 0]"
  using generate_tiles_int [of 5 3 0 5 3 0 10 1] by (simp add: py_range_1)

lemma generate_tiles_member:
  assumes "generate_tiles bounds tile_size origin_x origin_y resolution = Inr tiles"
    and "t \<in> set tiles"
  shows "idx_from_ll (t_xmin t) (t_ymin t) origin_x origin_y tile_size = Inr (t_col t, t_row t)"
    and "format_tile_id_float tile_size (t_col t) (t_row t) resolution = Inr (t_tile_id t)"
proof -
  obtain xmin ymin xmax ymax where b: "bounds = (xmin, ymin, xmax, ymax)"
    by (cases bounds) auto
  from generate_tiles_structure [OF assms(1) [unfolded b]] obtain sxmin symin ncols nrows
    where g: "concat (map (\<lambda>r. map (tile_at tile_size origin_x origin_y resolution sxmin symin r)
                         (py_range ncols)) (py_range nrows)) = map Inr tiles"
    by blast
  have "Inr t \<in> set (concat (map (\<lambda>r. map (tile_at tile_size origin_x origin_y resolution
      sxmin symin r) (py_range ncols)) (py_range nrows)))"
    unfolding g using assms(2) by simp
  then obtain r c where "tile_at tile_size origin_x origin_y resolution sxmin symin r c = Inr t"
    by auto
  from tile_at_Inr [OF this]
  show "idx_from_ll (t_xmin t) (t_ymin t) origin_x origin_y tile_size = Inr (t_col t, t_row t)"
    and "format_tile_id_float tile_size (t_col t) (t_row t) resolution = Inr (t_tile_id t)"
    by auto
qed

lemma gen_1x1:
  "generate_tiles (Finite 0, Finite 0, Finite 10, Finite 10) (Finite 10) (Finite 0) (Finite 0)
     (Finite 1) = Inr [grid_tile 10 0 0 1 0 0]"
  using generate_tiles_int [of 0 10 0 0 10 0 10 1] by (simp add: py_range_1)

lemma gen_3x3:
  "generate_tiles (Finite (- 10), Finite (- 10), Finite 20, Finite 20) (Finite 10) (Finite 0)
     (Finite 0) (Finite 1)
   = Inr (concat (map (\<lambda>r. map (\<lambda>c. grid_tile 10 0 0 1 (- 1 + c) (- 1 + r)) [0, 1, 2])
       [0, 1, 2]))"
  using generate_tiles_int [of "- 10" 20 0 "- 10" 20 0 10 1] by (simp add: py_range_3)

lemma gen_example:
  "generate_tiles (Finite (- 10000), Finite (- 10000), Finite 100000, Finite 100000)
     (Finite 98304) (Finite 0) (Finite 0) (Finite 32)
   = Inr (concat (map (\<lambda>r. map (\<lambda>c. grid_tile 98304 0 0 32 (- 1 + c) (- 1 + r)) [0, 1, 2])
       [0, 1, 2]))"
  using generate_tiles_int [of "- 10000" 100000 0 "- 10000" 100000 0 98304 32]
  by (simp add: py_range_3)

section \<open>Facts about the validator\<close>

lemma py_round_dev_le: "\<bar>x - of_int (py_round x)\<bar> \<le> \<bar>x\<bar>"
proof (cases "py_round x = 0")
  case True
  then show ?thesis by simp
next
  case False
  then have "1 \<le> \<bar>py_round x\<bar>" by simp
  then have "1 \<le> \<bar>of_int (py_round x) :: real\<bar>"
    by (metis of_int_abs of_int_1_le_iff)
  with py_round_close [of x] show ?thesis by linarith
qed

lemma py_round_abs_le:
  assumes "\<bar>x\<bar> \<le> of_int N"
  shows "\<bar>py_round x\<bar> \<le> N"
proof -
  have "\<bar>of_int (py_round x) :: real\<bar> \<le> of_int N + 1 / 2"
    using py_round_close [of x] assms by linarith
  then have "\<bar>of_int (py_round x) :: real\<bar> < of_int (N + 1)" by simp
  then have "(of_int \<bar>py_round x\<bar> :: real) < of_int (N + 1)" by simp
  then have "\<bar>py_round x\<bar> < N + 1" by (simp only: of_int_less_iff)
  then show ?thesis by simp
qed

lemma round_double_repr:
  obtains m e where "round_double x = of_int m * 2 powi e" and "\<bar>m\<bar> \<le> 2 ^ 53"
    and "- 1074 \<le> e"
proof (cases "x = 0")
  case True
  have "round_double x = of_int 0 * 2 powi 0" "\<bar>0::int\<bar> \<le> 2 ^ 53" "- 1074 \<le> (0::int)"
    using True by simp_all
  then show ?thesis by (rule that)
next
  case False
  define L where "L = floor_log2 x"
  define E where "E = double_exponent x"
  note b = floor_log2_bounds [OF False, folded L_def]
  have E: "L - 52 \<le> E" "- 1074 \<le> E" by (simp_all add: E_def double_exponent_def L_def)
  have "(2::real) powi (L - 52) \<le> 2 powi E" using E(1) by (intro power_int_increasing) simp_all
  then have "2 powi (L + 1) \<le> 2 ^ 53 * (2::real) powi E"
    by (simp add: power_int_add power_int_diff)
  with b have "\<bar>x\<bar> \<le> 2 ^ 53 * 2 powi E" by linarith
  then have "\<bar>x\<bar> / 2 powi E \<le> 2 ^ 53" by (simp add: field_simps)
  then have "\<bar>x / 2 powi E\<bar> \<le> of_int (2 ^ 53)" by simp
  then have m: "\<bar>py_round (x / 2 powi E)\<bar> \<le> 2 ^ 53" by (rule py_round_abs_le)
  have "round_double x = of_int (py_round (x / 2 powi E)) * 2 powi E"
    using False by (simp add: round_double_def E_def)
  from this m E(2) show ?thesis by (rule that)
qed

lemma double_sub_round:
  assumes p: "p = of_int m * 2 powi e" and m: "\<bar>m\<bar> \<le> 2 ^ 53" and e: "- 1074 \<le> e"
    and f: "\<bar>p\<bar> < 2 ^ 1024"
  shows "to_float (of_int (py_round p)) = Finite (of_int (py_round p))"
    and "to_float (p - of_int (py_round p)) = Finite (p - of_int (py_round p))"
proof -
  have "to_float (of_int (py_round p)) = Finite (of_int (py_round p)) \<and>
    to_float (p - of_int (py_round p)) = Finite (p - of_int (py_round p))"
  proof (cases "0 \<le> e")
    case True
    then have "p = of_int (m * 2 ^ nat e)" using p by (simp add: power_int_def)
    then have "of_int (py_round p) = p" by (simp only: py_round_of_int)
    moreover have "to_float p = Finite p" using p m e f by (rule to_float_exact)
    ultimately show ?thesis by simp
  next
    case False
    define n where "n = py_round p"
    have "(2::real) powi e \<le> 2 powi (- 1)" using False by (intro power_int_increasing) simp_all
    then have e2: "(2::real) powi e \<le> 1 / 2" by (simp add: power_int_minus)
    have mr: "\<bar>of_int m :: real\<bar> \<le> 2 ^ 53"
      using m by (metis of_int_abs of_int_le_numeral_power_cancel_iff)
    have "\<bar>p\<bar> = \<bar>of_int m\<bar> * 2 powi e" by (simp add: p abs_mult)
    also have "\<dots> \<le> 2 ^ 53 * (1 / 2)"
      using mr e2 by (intro mult_mono) simp_all
    finally have "\<bar>p\<bar> \<le> of_int (2 ^ 52)" by simp
    then have "\<bar>n\<bar> \<le> 2 ^ 52" unfolding n_def by (rule py_round_abs_le)
    then have n53: "\<bar>n\<bar> \<le> 2 ^ 53" by simp
    have 1: "to_float (of_int n) = Finite (of_int n)" using n53 by (rule to_float_of_int)
    define m' where "m' = m - n * 2 ^ nat (- e)"
    have pe: "(2::real) ^ nat (- e) * 2 powi e = 1"
    proof -
      have "(2::real) ^ nat (- e) = 2 powi (- e)" using False by (simp add: power_int_def)
      then show ?thesis by (simp add: power_int_minus)
    qed
    have "(of_int m' :: real) * 2 powi e
        = of_int m * 2 powi e - of_int n * (2 ^ nat (- e) * 2 powi e)"
      by (simp add: m'_def algebra_simps)
    then have d: "p - of_int n = of_int m' * 2 powi e" by (simp only: p pe mult_1_right)
    have "\<bar>of_int m' :: real\<bar> * 2 powi e = \<bar>p - of_int n\<bar>" by (simp add: d abs_mult)
    also have "\<dots> \<le> \<bar>p\<bar>" unfolding n_def by (rule py_round_dev_le)
    also have "\<dots> = \<bar>of_int m\<bar> * 2 powi e" by (simp add: p abs_mult)
    finally have "\<bar>of_int m' :: real\<bar> \<le> \<bar>of_int m\<bar>" by simp
    then have "\<bar>m'\<bar> \<le> \<bar>m\<bar>" by (metis of_int_abs of_int_le_iff)
    then have m': "\<bar>m'\<bar> \<le> 2 ^ 53" using m by linarith
    have "\<bar>p - of_int n\<bar> \<le> 1 / 2" unfolding n_def by (rule py_round_close)
    moreover have "(1 / 2 :: real) < 2 ^ 1024"
    proof -
      have "(1::real) \<le> 2 ^ 1024" by (rule one_le_power) simp
      then show ?thesis by simp
    qed
    ultimately have "\<bar>p - of_int n\<bar> < 2 ^ 1024" by linarith
    with d m' e have "to_float (p - of_int n) = Finite (p - of_int n)"
      by (rule to_float_exact)
    with 1 show ?thesis by (simp add: n_def)
  qed
  then show "to_float (of_int (py_round p)) = Finite (of_int (py_round p))"
    and "to_float (p - of_int (py_round p)) = Finite (p - of_int (py_round p))"
    by simp_all
qed

lemma validate_finite:
  "validate_tile_resolution (Finite tile_size) (Finite resolution) =
     (if resolution = 0 then Inl ZeroDivisionError
      else let pixels = round_double (tile_size / resolution)
           in if 2 ^ 1024 \<le> \<bar>pixels\<bar> then Inl OverflowError
              else if 4835703278458517 / 2 ^ 82 < \<bar>pixels - of_int (py_round pixels)\<bar>
                then Inl (ValueError WholeNumberOfPixels)
              else if py_round pixels mod 512 \<noteq> 0 then Inl (ValueError DivisibleBy512)
              else Inr ())"
proof (cases "resolution = 0")
  case True
  then show ?thesis by (simp add: validate_tile_resolution_def)
next
  case nz: False
  define p where "p = round_double (tile_size / resolution)"
  have q: "float_truediv (Finite tile_size) (Finite resolution)
      = Inr (to_float (tile_size / resolution))"
    using nz by simp
  show ?thesis
  proof (cases "2 ^ 1024 \<le> \<bar>p\<bar>")
    case True
    then have "to_float (tile_size / resolution) = PosInf
        \<or> to_float (tile_size / resolution) = NegInf"
      by (auto simp: to_float_def Let_def p_def)
    then have "validate_tile_resolution (Finite tile_size) (Finite resolution)
        = Inl OverflowError"
      unfolding validate_tile_resolution_def q by auto
    then show ?thesis using nz True by (simp add: Let_def p_def)
  next
    case False
    then have fin: "\<bar>p\<bar> < 2 ^ 1024" by simp
    then have t: "to_float (tile_size / resolution) = Finite p"
      by (auto simp: to_float_def Let_def p_def)
    obtain m e where r: "p = of_int m * 2 powi e" "\<bar>m\<bar> \<le> 2 ^ 53" "- 1074 \<le> e"
      unfolding p_def by (rule round_double_repr)
    note x = double_sub_round [OF r fin]
    have s: "float_sub_int (Finite p) (py_round p) = Inr (Finite (p - of_int (py_round p)))"
      by (simp add: float_sub_int_def int_to_float_def x(1) float_sub_def x(2))
    have "validate_tile_resolution (Finite tile_size) (Finite resolution) =
        (if 4835703278458517 / 2 ^ 82 < \<bar>p - of_int (py_round p)\<bar>
         then Inl (ValueError WholeNumberOfPixels)
         else if py_round p mod 512 \<noteq> 0 then Inl (ValueError DivisibleBy512)
         else Inr ())"
      unfolding validate_tile_resolution_def q t
      using mod512_mod16 [of "py_round p"]
      by (simp add: s double_1e_9_def)
    then show ?thesis using nz False by (simp add: Let_def p_def)
  qed
qed

lemma round_double_512:
  "\<exists>j. round_double (512 * of_int k) = 512 * of_int j"
proof (cases "k = 0")
  case True
  then have "round_double (512 * of_int k) = 512 * of_int 0" by simp
  then show ?thesis by blast
next
  case False
  define x :: real where "x = 512 * of_int k"
  define E where "E = double_exponent x"
  have xnz: "x \<noteq> 0" using False by (simp add: x_def)
  have rd: "round_double x = of_int (py_round (x / 2 powi E)) * 2 powi E"
    using xnz by (simp add: round_double_def E_def)
  have x9: "x = of_int k * 2 powi 9" by (simp add: x_def)
  show ?thesis
  proof (cases "E \<le> 9")
    case True
    have "x / 2 powi E = of_int k * (2 powi 9 / 2 powi E)" by (simp add: x9)
    also have "2 powi 9 / 2 powi E = (2::real) powi (9 - E)" by (simp add: power_int_diff)
    also have "\<dots> = 2 ^ nat (9 - E)" using True by (simp add: power_int_def)
    finally have "x / 2 powi E = of_int (k * 2 ^ nat (9 - E))" by simp
    then have "round_double x = (x / 2 powi E) * 2 powi E" by (simp only: rd py_round_of_int)
    then have "round_double (512 * of_int k) = 512 * of_int k" by (simp add: x_def)
    then show ?thesis by blast
  next
    case False
    define M where "M = py_round (x / 2 powi E)"
    have "(2::real) powi E = 2 powi (E - 9) * 2 powi 9" by (simp add: power_int_diff)
    also have "(2::real) powi (E - 9) = 2 ^ nat (E - 9)" using False by (simp add: power_int_def)
    finally have "round_double x = 512 * of_int (M * 2 ^ nat (E - 9))"
      by (simp add: rd M_def)
    then show ?thesis unfolding x_def by blast
  qed
qed

lemma validate_multiple_of_512:
  assumes "resolution \<noteq> 0" and "\<bar>round_double (tile_size / resolution)\<bar> < 2 ^ 1024"
    and "tile_size / resolution = 512 * of_int k"
  shows "validate_tile_resolution (Finite tile_size) (Finite resolution) = Inr ()"
proof -
  obtain j where j: "round_double (tile_size / resolution) = 512 * of_int j"
    unfolding assms(3) using round_double_512 by blast
  have "(512 * of_int j :: real) = of_int (512 * j)" by simp
  then have r: "py_round (512 * of_int j) = 512 * j" by (simp only: py_round_of_int)
  have "\<not> 2 ^ 1024 \<le> \<bar>512 * of_int j :: real\<bar>" using assms(2) unfolding j by simp
  then show ?thesis
    unfolding validate_finite Let_def j r using assms(1) by simp
qed

lemma round_double_2_1024: "round_double (2 ^ 1024) = 2 ^ 1024"
  by (rule round_double_exact [of _ 1 1024]) simp_all

lemma round_double_1000_3: "round_double (1000 / 3) = 5864062014805333 / 2 ^ 44"
proof -
  have "py_round (1000 / 3 / 2 powi max (8 - 52) (- 1074)) = 5864062014805333"
    by (rule py_round_unique) (simp add: power_int_minus)
  then show ?thesis
    using round_double_eval [of 8 "1000 / 3"] by (simp add: power_int_minus)
qed

lemma py_round_1000_3: "py_round (5864062014805333 / 2 ^ 44) = 333"
  by (rule py_round_unique) simp

lemma validate_1000_3:
  "validate_tile_resolution (Finite 1000) (Finite 3) = Inl (ValueError WholeNumberOfPixels)"
  unfolding validate_finite Let_def round_double_1000_3 py_round_1000_3 by simp

lemma round_double_numeral:
  "numeral n \<le> (2::int) ^ 53 \<Longrightarrow> round_double (numeral n) = numeral n"
  using round_double_of_int [of "numeral n"] by simp

section \<open>Facts about the formatter\<close>

lemma append_less_same_length:
  fixes xs ys us vs :: "'a::linorder list"
  assumes "length xs = length ys"
  shows "xs @ us < ys @ vs \<longleftrightarrow> xs < ys \<or> xs = ys \<and> us < vs"
  using assms by (induction xs ys rule: list_induct2) auto

lemma append_less_same_prefix:
  fixes xs us vs :: "'a::linorder list"
  shows "xs @ us < xs @ vs \<longleftrightarrow> us < vs"
  using append_less_same_length [of xs xs us vs] by simp

lemma digit_cases:
  fixes d :: nat
  assumes "d < 10"
  shows "d = 0 \<or> d = 1 \<or> d = 2 \<or> d = 3 \<or> d = 4 \<or> d = 5 \<or> d = 6 \<or> d = 7 \<or> d = 8 \<or> d = 9"
  using assms by arith

lemma digit_char_code: "d < 10 \<Longrightarrow> of_char (digit_char d) = (48 + d :: nat)"
  using digit_cases [of d] by (auto simp: digit_char_def)

lemma digit_char_less: "a < 10 \<Longrightarrow> b < 10 \<Longrightarrow> digit_char a < digit_char b \<longleftrightarrow> a < b"
  unfolding less_char_def by (simp only: digit_char_code) simp

lemma digit_char_eq: "a < 10 \<Longrightarrow> b < 10 \<Longrightarrow> digit_char a = digit_char b \<longleftrightarrow> a = b"
proof
  assume "a < 10" "b < 10" "digit_char a = digit_char b"
  then have "(48::nat) + a = 48 + b"
    using digit_char_code [of a] digit_char_code [of b] by (simp only:)
  then show "a = b" by simp
qed simp

lemma digits_small: "n < 10 \<Longrightarrow> digits n = [digit_char n]"
  by (simp add: digits.simps)

lemma digits_big: "\<not> n < 10 \<Longrightarrow> digits n = digits (n div 10) @ [digit_char (n mod 10)]"
  by (subst digits.simps) simp

lemma digit_char_0: "digit_char 0 = CHR ''0''"
  by (simp add: digit_char_def)

lemma length_digits_le: "0 < k \<Longrightarrow> n < 10 ^ k \<Longrightarrow> length (digits n) \<le> k"
proof (induction n arbitrary: k rule: digits.induct)
  case (1 n)
  show ?case
  proof (cases "n < 10")
    case True
    then show ?thesis using "1.prems" by (simp add: digits_small)
  next
    case False
    obtain j where k: "k = Suc j" using "1.prems"(1) by (cases k) auto
    have "j \<noteq> 0" using False "1.prems"(2) k by (cases j) auto
    moreover have "n div 10 < 10 ^ j"
      using "1.prems"(2) k by (simp add: less_mult_imp_div_less mult.commute)
    ultimately have "length (digits (n div 10)) \<le> j"
      using "1.IH" [OF False, of j] by simp
    then show ?thesis using False k by (simp add: digits_big)
  qed
qed

lemma pad_step:
  assumes "0 < k" and "n < 10 ^ Suc k"
  shows "replicate (Suc k - length (digits n)) CHR ''0'' @ digits n =
         (replicate (k - length (digits (n div 10))) CHR ''0'' @ digits (n div 10))
           @ [digit_char (n mod 10)]"
proof (cases "n < 10")
  case True
  have "replicate k CHR ''0'' = replicate (k - 1) CHR ''0'' @ [CHR ''0'']"
    using assms(1) by (cases k) (simp_all add: replicate_append_same)
  then show ?thesis using True by (simp add: digits_small digit_char_0)
next
  case False
  have "n div 10 < 10 ^ k"
    using assms(2) by (simp add: less_mult_imp_div_less mult.commute)
  then have "length (digits (n div 10)) \<le> k"
    using assms(1) by (intro length_digits_le)
  then show ?thesis using False by (simp add: digits_big Suc_diff_le)
qed

lemma pad_length:
  "0 < k \<Longrightarrow> n < 10 ^ k \<Longrightarrow> length (replicate (k - length (digits n)) CHR ''0'' @ digits n) = k"
  using length_digits_le [of k n] by simp

lemma less_div_mod_10:
  fixes a b :: nat
  shows "a < b \<longleftrightarrow> a div 10 < b div 10 \<or> a div 10 = b div 10 \<and> a mod 10 < b mod 10"
proof -
  define qa ra qb rb where "qa = a div 10" and "ra = a mod 10" and "qb = b div 10" and "rb = b mod 10"
  have a: "a = 10 * qa + ra" and b: "b = 10 * qb + rb" and r: "ra < 10" "rb < 10"
    by (simp_all add: qa_def ra_def qb_def rb_def)
  show ?thesis
    unfolding qa_def [symmetric] ra_def [symmetric] qb_def [symmetric] rb_def [symmetric]
    using r unfolding a b by arith
qed

lemma eq_div_mod_10:
  fixes a b :: nat
  shows "a = b \<longleftrightarrow> a div 10 = b div 10 \<and> a mod 10 = b mod 10"
  by (metis div_mult_mod_eq)

lemma pad_order:
  assumes "0 < k" and "a < 10 ^ k" and "b < 10 ^ k"
  shows "(replicate (k - length (digits a)) CHR ''0'' @ digits a
            < replicate (k - length (digits b)) CHR ''0'' @ digits b \<longleftrightarrow> a < b) \<and>
         (replicate (k - length (digits a)) CHR ''0'' @ digits a
            = replicate (k - length (digits b)) CHR ''0'' @ digits b \<longleftrightarrow> a = b)"
  using assms
proof (induction k arbitrary: a b)
  case 0
  then show ?case by simp
next
  case (Suc k)
  let ?pad = "\<lambda>k n. replicate (k - length (digits n)) CHR ''0'' @ digits n"
  show ?case
  proof (cases "k = 0")
    case True
    then have "a < 10" "b < 10" using Suc.prems by simp_all
    then show ?thesis
      using True by (simp add: digits_small digit_char_less digit_char_eq)
  next
    case False
    then have k: "0 < k" by simp
    have da: "a div 10 < 10 ^ k" and db: "b div 10 < 10 ^ k"
      using Suc.prems by (simp_all add: less_mult_imp_div_less mult.commute)
    have sa: "?pad (Suc k) a = ?pad k (a div 10) @ [digit_char (a mod 10)]"
      using k Suc.prems(2) by (rule pad_step)
    have sb: "?pad (Suc k) b = ?pad k (b div 10) @ [digit_char (b mod 10)]"
      using k Suc.prems(3) by (rule pad_step)
    have len: "length (?pad k (a div 10)) = length (?pad k (b div 10))"
      using pad_length [OF k da] pad_length [OF k db] by simp
    have ih: "(?pad k (a div 10) < ?pad k (b div 10) \<longleftrightarrow> a div 10 < b div 10) \<and>
              (?pad k (a div 10) = ?pad k (b div 10) \<longleftrightarrow> a div 10 = b div 10)"
      using Suc.IH [OF k da db] .
    have m: "a mod 10 < 10" "b mod 10 < 10" by simp_all
    have "?pad (Suc k) a < ?pad (Suc k) b \<longleftrightarrow>
        a div 10 < b div 10 \<or> a div 10 = b div 10 \<and> a mod 10 < b mod 10"
      unfolding sa sb append_less_same_length [OF len]
      using ih digit_char_less [OF m] by simp
    moreover have "?pad (Suc k) a = ?pad (Suc k) b \<longleftrightarrow>
        a div 10 = b div 10 \<and> a mod 10 = b mod 10"
      unfolding sa sb using ih digit_char_eq [OF m] by simp
    ultimately show ?thesis
      using less_div_mod_10 [of a b] eq_div_mod_10 [of a b] by blast
  qed
qed

lemma format_field_order:
  assumes "0 \<le> a" "a \<le> 999999" "0 \<le> b" "b \<le> 999999"
  shows "length (py_format_plus_zero_d 7 a) = 7"
    and "py_format_plus_zero_d 7 a < py_format_plus_zero_d 7 b \<longleftrightarrow> a < b"
    and "py_format_plus_zero_d 7 a = py_format_plus_zero_d 7 b \<longleftrightarrow> a = b"
proof -
  have seven: "7 - Suc n = 6 - n" for n :: nat by simp
  have a: "nat a < 10 ^ 6" and b: "nat b < 10 ^ 6" using assms by simp_all
  have fa: "py_format_plus_zero_d 7 a =
      CHR ''+'' # (replicate (6 - length (digits (nat a))) CHR ''0'' @ digits (nat a))"
    using assms(1) by (simp add: py_format_plus_zero_d_def Let_def seven)
  have fb: "py_format_plus_zero_d 7 b =
      CHR ''+'' # (replicate (6 - length (digits (nat b))) CHR ''0'' @ digits (nat b))"
    using assms(3) by (simp add: py_format_plus_zero_d_def Let_def seven)
  have ord: "(replicate (6 - length (digits (nat a))) CHR ''0'' @ digits (nat a)
            < replicate (6 - length (digits (nat b))) CHR ''0'' @ digits (nat b) \<longleftrightarrow> nat a < nat b) \<and>
         (replicate (6 - length (digits (nat a))) CHR ''0'' @ digits (nat a)
            = replicate (6 - length (digits (nat b))) CHR ''0'' @ digits (nat b) \<longleftrightarrow> nat a = nat b)"
    using a b by (intro pad_order) simp_all
  show "length (py_format_plus_zero_d 7 a) = 7"
    unfolding fa using pad_length [of 6 "nat a"] a by simp
  have na: "nat a < nat b \<longleftrightarrow> a < b" and ne: "nat a = nat b \<longleftrightarrow> a = b"
    using assms by linarith+
  show "py_format_plus_zero_d 7 a < py_format_plus_zero_d 7 b \<longleftrightarrow> a < b"
    unfolding fa fb using ord na by simp
  show "py_format_plus_zero_d 7 a = py_format_plus_zero_d 7 b \<longleftrightarrow> a = b"
    unfolding fa fb using ord ne by simp
qed

lemma format_tile_id_98304_32:
  "format_tile_id 98304 c r 32 =
     ''T98304_R32_C'' @ py_format_plus_zero_d 7 c @ ''_R'' @ py_format_plus_zero_d 7 r"
  by (simp add: format_tile_id_def py_str_int_def Let_def digits_32 digits_98304)

lemma digits_999999: "digits 999999 = ''999999''"
  by (simp add: digits.simps digit_char_def)

lemma digits_1000000: "digits 1000000 = ''1000000''"
  by (simp add: digits.simps digit_char_def)

lemma field_0: "py_format_plus_zero_d 7 0 = ''+000000''"
  by (simp add: py_format_plus_zero_d_def Let_def digits_0 replicate_5)

lemma field_1: "py_format_plus_zero_d 7 1 = ''+000001''"
  by (simp add: py_format_plus_zero_d_def Let_def digits_1 replicate_5)

lemma field_m1: "py_format_plus_zero_d 7 (- 1) = ''-000001''"
  by (simp add: py_format_plus_zero_d_def Let_def digits_1 replicate_5)

lemma field_999999: "py_format_plus_zero_d 7 999999 = ''+999999''"
  by (simp add: py_format_plus_zero_d_def Let_def digits_999999)

lemma field_1000000: "py_format_plus_zero_d 7 1000000 = ''+1000000''"
  by (simp add: py_format_plus_zero_d_def Let_def digits_1000000)

section \<open>Grid snapper: coverage\<close>




section \<open>Tile indexer\<close>

text \<open>
  Claim C8. The claim is that \<^verbatim>\<open>idx_from_ll\<close> returns the floors of the quotients
  \<open>(x0 - origin_x) / tile_size\<close> and \<open>(y0 - origin_y) / tile_size\<close>. It returns the floors
  of the rounded quotients: at \<open>x0 = y0 = 0.5\<close>, origin \<open>0\<close> and tile size the double
  \<^verbatim>\<open>0.1\<close> (\<open>3602879701896397 / 2 ^ 55\<close>) the quotient is below 5 and its floor is 4,
  but the double nearest to it is \<^verbatim>\<open>5.0\<close> and the function returns \<open>(5, 5)\<close>.
\<close>

theorem idx_from_ll_not_exact_floor:
  "idx_from_ll (Finite (1 / 2)) (Finite (1 / 2)) (Finite 0) (Finite 0)
      (Finite (3602879701896397 / 2 ^ 55)) = Inr (5, 5) \<and>
   \<lfloor>(1 / 2 - 0) / (3602879701896397 / 2 ^ 55) :: real\<rfloor> = 4"
proof -
  have "idx_from_ll (Finite (1 / 2)) (Finite (1 / 2)) (Finite 0) (Finite 0)
      (Finite (3602879701896397 / 2 ^ 55)) = Inr (5, 5)"
    unfolding idx_from_ll_def sub_zero using c8_h c8_q by simp
  with c8_floor show ?thesis by simp
qed

text \<open>
  Claim C8, as the code has it. \<^verbatim>\<open>idx_from_ll\<close> returns the floors of the two
  quotients as double arithmetic computes them. When the corner \<open>(x0, y0)\<close>, the origin
  and the tile size are integer-valued floats of magnitude at most \<open>2 ^ 50\<close> and the tile
  size is at least 1, these are \<open>floor ((x0 - origin_x) / tile_size)\<close> and
  \<open>floor ((y0 - origin_y) / tile_size)\<close>; at \<open>x0 = -98304\<close>, \<open>tile_size = 98304\<close>,
  \<open>origin_x = 0\<close> the column is \<open>-1\<close>.
\<close>

theorem idx_from_ll_floor:
  fixes x0 y0 origin_x origin_y tile_size :: int
  assumes "\<bar>x0\<bar> \<le> 2 ^ 50" and "\<bar>y0\<bar> \<le> 2 ^ 50"
    and "\<bar>origin_x\<bar> \<le> 2 ^ 50" and "\<bar>origin_y\<bar> \<le> 2 ^ 50"
    and "1 \<le> tile_size" and "tile_size \<le> 2 ^ 50"
  shows "idx_from_ll (Finite (of_int x0)) (Finite (of_int y0)) (Finite (of_int origin_x))
           (Finite (of_int origin_y)) (Finite (of_int tile_size))
         = Inr (\<lfloor>(of_int x0 - of_int origin_x) / of_int tile_size :: real\<rfloor>,
                \<lfloor>(of_int y0 - of_int origin_y) / of_int tile_size :: real\<rfloor>) \<and>
         idx_from_ll (Finite (- 98304)) (Finite (of_int y0)) (Finite 0)
           (Finite (of_int origin_y)) (Finite 98304)
         = Inr (- 1, \<lfloor>(of_int y0 - of_int origin_y) / 98304 :: real\<rfloor>)"
proof -
  have d: "\<bar>x0 - origin_x\<bar> \<le> 2 ^ 52" "\<bar>y0 - origin_y\<bar> \<le> 2 ^ 52"
    using assms(1-4) by simp_all
  then have "idx_from_ll (Finite (of_int x0)) (Finite (of_int y0)) (Finite (of_int origin_x))
           (Finite (of_int origin_y)) (Finite (of_int tile_size))
         = Inr ((x0 - origin_x) div tile_size, (y0 - origin_y) div tile_size)"
    using assms(5,6) by (rule idx_from_ll_int)
  moreover have "(x0 - origin_x) div tile_size
      = \<lfloor>(of_int x0 - of_int origin_x) / of_int tile_size :: real\<rfloor>"
    "(y0 - origin_y) div tile_size
      = \<lfloor>(of_int y0 - of_int origin_y) / of_int tile_size :: real\<rfloor>"
    by (simp_all only: of_int_diff [symmetric] floor_divide_of_int_eq)
  moreover have "idx_from_ll (Finite (of_int (- 98304))) (Finite (of_int y0)) (Finite (of_int 0))
           (Finite (of_int origin_y)) (Finite (of_int 98304))
         = Inr ((- 98304 - 0) div 98304, (y0 - origin_y) div 98304)"
    using d(2) by (intro idx_from_ll_int) simp_all
  moreover have "(y0 - origin_y) div 98304
      = \<lfloor>(of_int y0 - of_int origin_y) / of_int 98304 :: real\<rfloor>"
    by (simp only: of_int_diff [symmetric] floor_divide_of_int_eq)
  ultimately show ?thesis by simp
qed

theorem idx_from_ll_floor_witness:
  "idx_from_ll (Finite (- 98304)) (Finite (- 98304)) (Finite 0) (Finite 0) (Finite 98304)
     = Inr (- 1, - 1)"
  using idx_from_ll_floor [of "- 98304" "- 98304" 0 0 98304] by simp

section \<open>Resolution validator\<close>

text \<open>
  Claim C10. The third \<^verbatim>\<open>raise\<close> of \<^verbatim>\<open>validate_tile_resolution\<close> (pixel count not
  divisible by 16) is dead code: an integer divisible by 512 is divisible by 16, and the
  test for 512 comes first, so no input makes the function raise that error.
\<close>

theorem div16_branch_unreachable:
  "validate_tile_resolution tile_size resolution \<noteq> Inl (ValueError DivisibleBy16) \<and>
   (\<forall>pixels::int. pixels mod 512 = 0 \<longrightarrow> pixels mod 16 = 0)"
proof -
  have e1: "e \<noteq> ValueError DivisibleBy16" if "float_truediv tile_size resolution = Inl e" for e
    using float_truediv_errors [OF that] by simp
  have e2: "e \<noteq> ValueError DivisibleBy16" if "py_round_float q = Inl e" for q e
    using that by (cases q) auto
  have e3: "e \<noteq> ValueError DivisibleBy16" if "float_sub_int q k = Inl e" for q k e
    using that
    by (auto simp: float_sub_int_def int_to_float_def bind_err_def split: sum.splits pyfloat.splits)
  have "validate_tile_resolution tile_size resolution \<noteq> Inl (ValueError DivisibleBy16)"
    unfolding validate_tile_resolution_def
    using mod512_mod16
    by (auto simp: bind_err_def split: sum.splits dest: e1 e2 e3)
  with mod512_mod16 show ?thesis by blast
qed

theorem div16_branch_unreachable_witness:
  "validate_tile_resolution (Finite 1040) (Finite 1) = Inl (ValueError DivisibleBy512) \<and>
   (1024::int) mod 512 = 0 \<and> (1024::int) mod 16 = 0"
  using div16_branch_unreachable [of "Finite 1040" "Finite 1"]
  by (simp add: validate_tile_resolution_def float_sub_int_def float_sub_def double_1e_9_def
      to_float_numeral int_to_float_def)

text \<open>
  Claim C5. The claim is that, for positive \<open>tile_size\<close> and \<open>resolution\<close>,
  \<^verbatim>\<open>validate_tile_resolution\<close> raises exactly when the pixel count is more than
  \<open>1e-9\<close> away from an integer or is not divisible by 512 or by 16, and that it returns
  whenever \<open>tile_size / resolution\<close> is an exact multiple of 512. With
  \<open>tile_size = 2 ^ 1023\<close> and \<open>resolution = 0.5\<close>, two positive doubles, the quotient
  \<open>2 ^ 1024\<close> is a multiple of 512, but it is beyond the largest double: the float
  quotient is infinite and \<^verbatim>\<open>round\<close> raises \<^verbatim>\<open>OverflowError\<close>.
\<close>

theorem validate_overflow:
  "validate_tile_resolution (Finite (2 ^ 1023)) (Finite (1 / 2)) = Inl OverflowError \<and>
   (2 ^ 1023 / (1 / 2) :: real) = 512 * 2 ^ 1015 \<and>
   (0::real) < 2 ^ 1023 \<and> (0::real) < 1 / 2"
proof -
  have q: "(2 ^ 1023 / (1 / 2) :: real) = 2 ^ 1024" by simp
  have "validate_tile_resolution (Finite (2 ^ 1023)) (Finite (1 / 2)) = Inl OverflowError"
    unfolding validate_finite Let_def q round_double_2_1024 by simp
  then show ?thesis by simp
qed

text \<open>
  Claim C5, as the code has it. For finite arguments let \<open>pixels\<close> be the double nearest
  to \<open>tile_size / resolution\<close>. \<^verbatim>\<open>validate_tile_resolution\<close> raises
  \<^verbatim>\<open>ZeroDivisionError\<close> when the resolution is zero and \<^verbatim>\<open>OverflowError\<close> when
  \<open>pixels\<close> is beyond the range of the doubles. Otherwise it raises \<^verbatim>\<open>ValueError\<close>
  exactly when \<open>pixels\<close> is more than the double \<^verbatim>\<open>1e-9\<close>
  (\<open>4835703278458517 / 2 ^ 82\<close>) away from \<open>round(pixels)\<close>, or \<open>round(pixels)\<close> is not
  divisible by 512, and else it returns \<^verbatim>\<open>None\<close>: the difference
  \<open>pixels - round(pixels)\<close> is computed without rounding, and the test for 16 never
  fails after the one for 512. It returns whenever \<open>tile_size / resolution\<close> is an
  exact multiple of 512 and \<open>pixels\<close> is in the range of the doubles, and it raises for
  \<open>tile_size = 1000\<close>, \<open>resolution = 3\<close>.
\<close>

theorem validate_raises_iff:
  "validate_tile_resolution (Finite tile_size) (Finite resolution) =
     (if resolution = 0 then Inl ZeroDivisionError
      else let pixels = round_double (tile_size / resolution)
           in if 2 ^ 1024 \<le> \<bar>pixels\<bar> then Inl OverflowError
              else if 4835703278458517 / 2 ^ 82 < \<bar>pixels - of_int (py_round pixels)\<bar>
                then Inl (ValueError WholeNumberOfPixels)
              else if py_round pixels mod 512 \<noteq> 0 then Inl (ValueError DivisibleBy512)
              else Inr ()) \<and>
   (resolution \<noteq> 0 \<and> \<bar>round_double (tile_size / resolution)\<bar> < 2 ^ 1024 \<and>
    tile_size / resolution = 512 * of_int k \<longrightarrow>
      validate_tile_resolution (Finite tile_size) (Finite resolution) = Inr ()) \<and>
   validate_tile_resolution (Finite 1000) (Finite 3) = Inl (ValueError WholeNumberOfPixels)"
  using validate_finite validate_multiple_of_512 validate_1000_3 by blast

theorem validate_raises_iff_witness:
  "(32::real) \<noteq> 0 \<and> (98304 / 32 :: real) = 512 * of_int 6 \<and>
   validate_tile_resolution (Finite 98304) (Finite 32) = Inr ()"
  using validate_raises_iff [of 98304 32 6] by (simp add: round_double_numeral)

section \<open>Grid generator\<close>

text \<open>
  Claim C7. The claim gives the list exactly \<open>nrows * ncols\<close> tiles for every finite
  bounds and positive tile size. Both counts are negative when the bounds are inverted:
  for the bounds \<open>(10, 10, -10, -10)\<close> with tile size 1 and origin \<open>(0, 0)\<close> the snapped
  rectangle is the bounds, \<open>ncols = nrows = -20\<close>, the product is 400 and the list is
  empty.
\<close>

theorem inverted_bounds_empty:
  "snapped_start (Finite 10) (Finite 0) (Finite 1) = Inr (Finite 10) \<and>
   snapped_end (Finite (- 10)) (Finite 0) (Finite 1) = Inr (Finite (- 10)) \<and>
   float_truediv (float_sub (Finite (- 10)) (Finite 10)) (Finite 1) = Inr (Finite (- 20)) \<and>
   py_round_float (Finite (- 20)) = Inr (- 20) \<and>
   generate_tiles (Finite 10, Finite 10, Finite (- 10), Finite (- 10)) (Finite 1) (Finite 0)
     (Finite 0) (Finite 1) = Inr [] \<and>
   int (length ([] :: tile list)) \<noteq> (- 20) * (- 20)"
proof -
  have "snapped_start (Finite 10) (Finite 0) (Finite 1) = Inr (Finite 10)"
    using snapped_start_int [of 10 0 1] by simp
  moreover have "snapped_end (Finite (- 10)) (Finite 0) (Finite 1) = Inr (Finite (- 10))"
    using snapped_end_int [of "- 10" 0 1] by simp
  moreover have "float_sub (Finite (- 10)) (Finite 10) = Finite (- 20)"
    using float_sub_int [of "- 10" 10] by simp
  moreover have "float_truediv (Finite (- 20)) (Finite 1) = Inr (Finite (- 20))"
    using span_quotient [of "- 20" 1] by simp
  moreover have "py_round (- 20) = - 20" using py_round_of_int [of "- 20"] by simp
  ultimately show ?thesis using gen_inverted by simp
qed

text \<open>
  Claim C7, as the code has it. Whenever \<^verbatim>\<open>generate_tiles\<close> returns a list (built in
  full before it is returned), the four snapping calls and the two rounded quotients
  \<open>ncols\<close> and \<open>nrows\<close> have returned, the list has \<open>max(nrows, 0) * max(ncols, 0)\<close>
  tiles, and the tile at position \<open>r * ncols + c\<close>, for \<open>0 \<le> r < nrows\<close> and
  \<open>0 \<le> c < ncols\<close>, is that of loop position \<open>(r, c)\<close>: row after row, and column after
  column inside a row. Its lower-left corner is
  \<open>(sxmin + c * tile_size, symin + r * tile_size)\<close>, with \<open>xmax = xmin + tile_size\<close> and
  \<open>ymax = ymin + tile_size\<close>, all four in double arithmetic; its \<open>(col, row)\<close> is what
  \<^verbatim>\<open>idx_from_ll\<close> returns on that corner and its \<open>tile_id\<close> is \<^verbatim>\<open>format_tile_id\<close> of
  them. The generator is a function of its arguments, so equal inputs give equal
  outputs.
\<close>

theorem generate_tiles_row_major:
  assumes "generate_tiles (xmin, ymin, xmax, ymax) tile_size origin_x origin_y resolution
    = Inr tiles"
  shows "\<exists>sxmin symin sxmax symax qc qr ncols nrows.
    snapped_start xmin origin_x tile_size = Inr sxmin \<and>
    snapped_start ymin origin_y tile_size = Inr symin \<and>
    snapped_end xmax origin_x tile_size = Inr sxmax \<and>
    snapped_end ymax origin_y tile_size = Inr symax \<and>
    float_truediv (float_sub sxmax sxmin) tile_size = Inr qc \<and>
    py_round_float qc = Inr ncols \<and>
    float_truediv (float_sub symax symin) tile_size = Inr qr \<and>
    py_round_float qr = Inr nrows \<and>
    length tiles = nat nrows * nat ncols \<and>
    (\<forall>r<nat nrows. \<forall>c<nat ncols. \<exists>rt ct.
       int_mul_float (int r) tile_size = Inr rt \<and>
       int_mul_float (int c) tile_size = Inr ct \<and>
       (let t = tiles ! (r * nat ncols + c)
        in t_xmin t = float_add sxmin ct \<and>
           t_ymin t = float_add symin rt \<and>
           t_xmax t = float_add (t_xmin t) tile_size \<and>
           t_ymax t = float_add (t_ymin t) tile_size \<and>
           idx_from_ll (t_xmin t) (t_ymin t) origin_x origin_y tile_size
             = Inr (t_col t, t_row t) \<and>
           format_tile_id_float tile_size (t_col t) (t_row t) resolution
             = Inr (t_tile_id t)))"
proof -
  from generate_tiles_structure [OF assms] obtain sxmin symin sxmax symax qc ncols qr nrows
    where s: "snapped_start xmin origin_x tile_size = Inr sxmin"
      "snapped_start ymin origin_y tile_size = Inr symin"
      "snapped_end xmax origin_x tile_size = Inr sxmax"
      "snapped_end ymax origin_y tile_size = Inr symax"
      "float_truediv (float_sub sxmax sxmin) tile_size = Inr qc"
      "py_round_float qc = Inr ncols"
      "float_truediv (float_sub symax symin) tile_size = Inr qr"
      "py_round_float qr = Inr nrows"
    and g: "concat (map (\<lambda>r. map (tile_at tile_size origin_x origin_y resolution sxmin symin r)
                         (py_range ncols)) (py_range nrows)) = map Inr tiles"
    by blast
  note n = generate_tiles_nth [OF g]
  have "\<exists>rt ct.
       int_mul_float (int r) tile_size = Inr rt \<and>
       int_mul_float (int c) tile_size = Inr ct \<and>
       (let t = tiles ! (r * nat ncols + c)
        in t_xmin t = float_add sxmin ct \<and>
           t_ymin t = float_add symin rt \<and>
           t_xmax t = float_add (t_xmin t) tile_size \<and>
           t_ymax t = float_add (t_ymin t) tile_size \<and>
           idx_from_ll (t_xmin t) (t_ymin t) origin_x origin_y tile_size
             = Inr (t_col t, t_row t) \<and>
           format_tile_id_float tile_size (t_col t) (t_row t) resolution
             = Inr (t_tile_id t))"
    if "r < nat nrows" "c < nat ncols" for r c
    using tile_at_Inr [OF n(2) [OF that]] by (auto simp: Let_def)
  with s n(1) show ?thesis by blast
qed

theorem generate_tiles_row_major_witness:
  "\<exists>tiles. generate_tiles (Finite 0, Finite 0, Finite 20, Finite 30) (Finite 10) (Finite 0)
       (Finite 0) (Finite 1) = Inr tiles \<and>
     length tiles = 3 * 2 \<and>
     t_xmin (tiles ! (1 * 2 + 1)) = Finite 10 \<and> t_ymin (tiles ! (1 * 2 + 1)) = Finite 10 \<and>
     idx_from_ll (Finite 10) (Finite 10) (Finite 0) (Finite 0) (Finite 10)
       = Inr (t_col (tiles ! (1 * 2 + 1)), t_row (tiles ! (1 * 2 + 1)))"
proof -
  define tiles where
    "tiles = concat (map (\<lambda>r. map (\<lambda>c. grid_tile 10 0 0 1 c r) [0, 1]) [0, 1, 2])"
  have g: "generate_tiles (Finite 0, Finite 0, Finite 20, Finite 30) (Finite 10) (Finite 0)
       (Finite 0) (Finite 1) = Inr tiles"
    unfolding tiles_def by (rule gen_2x3)
  from generate_tiles_row_major [OF g] obtain sxmin symin sxmax symax qc qr ncols nrows
    where s: "snapped_start (Finite 0) (Finite 0) (Finite 10) = Inr sxmin"
      "snapped_start (Finite 0) (Finite 0) (Finite 10) = Inr symin"
      "snapped_end (Finite 20) (Finite 0) (Finite 10) = Inr sxmax"
      "snapped_end (Finite 30) (Finite 0) (Finite 10) = Inr symax"
      "float_truediv (float_sub sxmax sxmin) (Finite 10) = Inr qc"
      "py_round_float qc = Inr ncols"
      "float_truediv (float_sub symax symin) (Finite 10) = Inr qr"
      "py_round_float qr = Inr nrows"
    and len: "length tiles = nat nrows * nat ncols"
    and cells: "\<forall>r<nat nrows. \<forall>c<nat ncols. \<exists>rt ct.
       int_mul_float (int r) (Finite 10) = Inr rt \<and>
       int_mul_float (int c) (Finite 10) = Inr ct \<and>
       (let t = tiles ! (r * nat ncols + c)
        in t_xmin t = float_add sxmin ct \<and>
           t_ymin t = float_add symin rt \<and>
           t_xmax t = float_add (t_xmin t) (Finite 10) \<and>
           t_ymax t = float_add (t_ymin t) (Finite 10) \<and>
           idx_from_ll (t_xmin t) (t_ymin t) (Finite 0) (Finite 0) (Finite 10)
             = Inr (t_col t, t_row t) \<and>
           format_tile_id_float (Finite 10) (t_col t) (t_row t) (Finite 1)
             = Inr (t_tile_id t))"
    by blast
  have v: "sxmin = Finite 0" "symin = Finite 0" "sxmax = Finite 20" "symax = Finite 30"
    using s(1-4) snapped_start_int [of 0 0 10] snapped_end_int [of 20 0 10]
      snapped_end_int [of 30 0 10] by simp_all
  have n: "ncols = 2" "nrows = 3"
    using s(5-8) unfolding v by (auto simp: float_sub_def to_float_numeral)
  have "1 < nat nrows" "1 < nat ncols" by (simp_all add: n)
  with cells obtain rt ct where c:
    "int_mul_float (int 1) (Finite 10) = Inr rt" "int_mul_float (int 1) (Finite 10) = Inr ct"
    "t_xmin (tiles ! (1 * nat ncols + 1)) = float_add sxmin ct"
    "t_ymin (tiles ! (1 * nat ncols + 1)) = float_add symin rt"
    "idx_from_ll (t_xmin (tiles ! (1 * nat ncols + 1))) (t_ymin (tiles ! (1 * nat ncols + 1)))
       (Finite 0) (Finite 0) (Finite 10)
     = Inr (t_col (tiles ! (1 * nat ncols + 1)), t_row (tiles ! (1 * nat ncols + 1)))"
    unfolding Let_def by blast
  have "rt = Finite 10" "ct = Finite 10" using c(1,2) int_mul_float_1_10 by simp_all
  then have "t_xmin (tiles ! (1 * 2 + 1)) = Finite 10" "t_ymin (tiles ! (1 * 2 + 1)) = Finite 10"
    using c(3,4) float_add_0_10 unfolding v n by simp_all
  moreover from this have "idx_from_ll (Finite 10) (Finite 10) (Finite 0) (Finite 0) (Finite 10)
       = Inr (t_col (tiles ! (1 * 2 + 1)), t_row (tiles ! (1 * 2 + 1)))"
    using c(5) unfolding n by simp
  moreover have "length tiles = 3 * 2" using len by (simp add: n)
  ultimately show ?thesis using g by blast
qed

text \<open>
  Claim C1. Fix the tile size, the resolution and the origin, and run the generator on
  two bounds (in particular on \<open>B\<close> and on a larger \<open>B'\<close> that contains it). A tile of
  the first run and a tile of the second run that have the same lower-left corner
  \<open>(xmin, ymin)\<close> have the same \<open>tile_id\<close>, the same \<open>col\<close> and the same \<open>row\<close>.
\<close>

theorem tile_id_stable_under_expansion:
  assumes "generate_tiles bounds tile_size origin_x origin_y resolution = Inr tiles"
    and "generate_tiles bounds' tile_size origin_x origin_y resolution = Inr tiles'"
    and "t \<in> set tiles" and "t' \<in> set tiles'"
    and "t_xmin t = t_xmin t'" and "t_ymin t = t_ymin t'"
  shows "t_tile_id t = t_tile_id t' \<and> t_col t = t_col t' \<and> t_row t = t_row t'"
proof -
  have "idx_from_ll (t_xmin t) (t_ymin t) origin_x origin_y tile_size = Inr (t_col t, t_row t)"
    using assms(1,3) by (rule generate_tiles_member)
  moreover have "idx_from_ll (t_xmin t') (t_ymin t') origin_x origin_y tile_size
      = Inr (t_col t', t_row t')"
    using assms(2,4) by (rule generate_tiles_member)
  ultimately have idx: "t_col t = t_col t'" "t_row t = t_row t'"
    using assms(5,6) by simp_all
  moreover have "format_tile_id_float tile_size (t_col t) (t_row t) resolution
      = Inr (t_tile_id t)"
    using assms(1,3) by (rule generate_tiles_member)
  moreover have "format_tile_id_float tile_size (t_col t') (t_row t') resolution
      = Inr (t_tile_id t')"
    using assms(2,4) by (rule generate_tiles_member)
  ultimately show ?thesis by simp
qed

theorem tile_id_stable_under_expansion_witness:
  "generate_tiles (Finite 0, Finite 0, Finite 10, Finite 10) (Finite 10) (Finite 0) (Finite 0)
     (Finite 1) = Inr [grid_tile 10 0 0 1 0 0] \<and>
   generate_tiles (Finite (- 10), Finite (- 10), Finite 20, Finite 20) (Finite 10) (Finite 0)
     (Finite 0) (Finite 1)
     = Inr (concat (map (\<lambda>r. map (\<lambda>c. grid_tile 10 0 0 1 (- 1 + c) (- 1 + r)) [0, 1, 2])
         [0, 1, 2])) \<and>
   grid_tile 10 0 0 1 (- 1 + 1) (- 1 + 1)
     \<in> set (concat (map (\<lambda>r. map (\<lambda>c. grid_tile 10 0 0 1 (- 1 + c) (- 1 + r)) [0, 1, 2])
         [0, 1, 2])) \<and>
   t_xmin (grid_tile 10 0 0 1 0 0) = t_xmin (grid_tile 10 0 0 1 (- 1 + 1) (- 1 + 1)) \<and>
   t_ymin (grid_tile 10 0 0 1 0 0) = t_ymin (grid_tile 10 0 0 1 (- 1 + 1) (- 1 + 1)) \<and>
   t_tile_id (grid_tile 10 0 0 1 0 0) = t_tile_id (grid_tile 10 0 0 1 (- 1 + 1) (- 1 + 1)) \<and>
   t_col (grid_tile 10 0 0 1 0 0) = t_col (grid_tile 10 0 0 1 (- 1 + 1) (- 1 + 1)) \<and>
   t_row (grid_tile 10 0 0 1 0 0) = t_row (grid_tile 10 0 0 1 (- 1 + 1) (- 1 + 1))"
proof -
  have m: "grid_tile 10 0 0 1 0 0 \<in> set [grid_tile 10 0 0 1 0 0]" by simp
  have m': "grid_tile 10 0 0 1 (- 1 + 1) (- 1 + 1)
      \<in> set (concat (map (\<lambda>r. map (\<lambda>c. grid_tile 10 0 0 1 (- 1 + c) (- 1 + r)) [0, 1, 2])
         [0, 1, 2]))"
    by simp
  have x: "t_xmin (grid_tile 10 0 0 1 0 0) = t_xmin (grid_tile 10 0 0 1 (- 1 + 1) (- 1 + 1))"
    and y: "t_ymin (grid_tile 10 0 0 1 0 0) = t_ymin (grid_tile 10 0 0 1 (- 1 + 1) (- 1 + 1))"
    by simp_all
  show ?thesis
    using tile_id_stable_under_expansion [OF gen_1x1 gen_3x3 m m' x y] gen_1x1 gen_3x3 m' x y
    by simp
qed

text \<open>
  Claim C9. The claim is that inverted bounds (\<open>xmax < xmin\<close> or \<open>ymax < ymin\<close>) and
  non-finite bounds make the core raise an \<^verbatim>\<open>InvalidBounds\<close> error before any tile is
  emitted. The generator does not compare its bounds: on the inverted bounds
  \<open>(5, 5, 3, 3)\<close> with tile size 10 it returns one tile.
\<close>

theorem inverted_bounds_accepted:
  "(3::real) < 5 \<and>
   generate_tiles (Finite 5, Finite 5, Finite 3, Finite 3) (Finite 10) (Finite 0) (Finite 0)
     (Finite 1) =
     Inr [\<lparr>t_tile_id = ''T10_R1_C+000000_R+000000'', t_tile_size_ft = Finite 10,
          t_resolution_ft = Finite 1, t_origin_x = Finite 0, t_origin_y = Finite 0,
          t_col = 0, t_row = 0,
          t_xmin = Finite 0, t_ymin = Finite 0, t_xmax = Finite 10, t_ymax = Finite 10,
          t_width = Finite 10, t_height = Finite 10,
          t_geometry = (Finite 0, Finite 0, Finite 10, Finite 10)\<rparr>]"
  by (simp add: gen_1x1_inverted grid_tile_def Let_def fmt_10_0_0)

text \<open>
  Claim C9, as the code has it. \<^verbatim>\<open>generate_tiles\<close> has no check of its bounds. A bound
  that is an infinity or NaN makes it raise while it snaps the bounds, before any tile
  is built: \<^verbatim>\<open>OverflowError\<close> or \<^verbatim>\<open>ValueError\<close> from \<^verbatim>\<open>math.floor\<close> or
  \<^verbatim>\<open>math.ceil\<close>, or \<^verbatim>\<open>ZeroDivisionError\<close> when the tile size is zero. Finite bounds
  are not rejected for being inverted: when the bounds, the origin and the tile size are
  integer-valued floats of magnitude at most \<open>2 ^ 50\<close>, with a tile size of at least 1
  and a finite resolution, the generator returns a list, whatever the order of the
  bounds.
\<close>

theorem generate_tiles_no_bounds_check:
  fixes x0 y0 x1 y1 ox oy ts :: int
  shows
  "(\<not> is_finite xmin \<or> \<not> is_finite ymin \<or> \<not> is_finite xmax \<or> \<not> is_finite ymax \<longrightarrow>
      (\<exists>e. generate_tiles (xmin, ymin, xmax, ymax) tile_size origin_x origin_y resolution
         = Inl e \<and> e \<in> {ZeroDivisionError, OverflowError, ValueError NaNToInteger})) \<and>
   (\<bar>x0\<bar> \<le> 2 ^ 50 \<and> \<bar>y0\<bar> \<le> 2 ^ 50 \<and> \<bar>x1\<bar> \<le> 2 ^ 50 \<and> \<bar>y1\<bar> \<le> 2 ^ 50 \<and>
    \<bar>ox\<bar> \<le> 2 ^ 50 \<and> \<bar>oy\<bar> \<le> 2 ^ 50 \<and> 1 \<le> ts \<and> ts \<le> 2 ^ 50 \<longrightarrow>
      (\<exists>tiles. generate_tiles (Finite (of_int x0), Finite (of_int y0), Finite (of_int x1),
          Finite (of_int y1)) (Finite (of_int ts)) (Finite (of_int ox)) (Finite (of_int oy))
          (Finite res) = Inr tiles))"
proof (intro conjI impI)
  assume "\<not> is_finite xmin \<or> \<not> is_finite ymin \<or> \<not> is_finite xmax \<or> \<not> is_finite ymax"
  then have "(\<exists>e. snapped_start xmin origin_x tile_size = Inl e) \<or>
    (\<exists>e. snapped_start ymin origin_y tile_size = Inl e) \<or>
    (\<exists>e. snapped_end xmax origin_x tile_size = Inl e) \<or>
    (\<exists>e. snapped_end ymax origin_y tile_size = Inl e)"
    using snapped_start_nonfinite [of xmin origin_x tile_size]
      snapped_start_nonfinite [of ymin origin_y tile_size]
      snapped_end_nonfinite [of xmax origin_x tile_size]
      snapped_end_nonfinite [of ymax origin_y tile_size]
    by blast
  then show "\<exists>e. generate_tiles (xmin, ymin, xmax, ymax) tile_size origin_x origin_y resolution
         = Inl e \<and> e \<in> {ZeroDivisionError, OverflowError, ValueError NaNToInteger}"
    by (rule generate_tiles_snap_error)
next
  assume "\<bar>x0\<bar> \<le> 2 ^ 50 \<and> \<bar>y0\<bar> \<le> 2 ^ 50 \<and> \<bar>x1\<bar> \<le> 2 ^ 50 \<and> \<bar>y1\<bar> \<le> 2 ^ 50 \<and>
    \<bar>ox\<bar> \<le> 2 ^ 50 \<and> \<bar>oy\<bar> \<le> 2 ^ 50 \<and> 1 \<le> ts \<and> ts \<le> 2 ^ 50"
  then show "\<exists>tiles. generate_tiles (Finite (of_int x0), Finite (of_int y0), Finite (of_int x1),
          Finite (of_int y1)) (Finite (of_int ts)) (Finite (of_int ox)) (Finite (of_int oy))
          (Finite res) = Inr tiles"
    using generate_tiles_int [of x0 x1 ox y0 y1 oy ts res] by blast
qed

theorem generate_tiles_no_bounds_check_witness:
  "\<not> is_finite PosInf \<and>
   generate_tiles (PosInf, Finite 0, Finite 1, Finite 1) (Finite 1) (Finite 0) (Finite 0)
     (Finite 1) = Inl OverflowError \<and>
   (- 10 :: real) < 10 \<and>
   (\<exists>tiles. generate_tiles (Finite 10, Finite 10, Finite (- 10), Finite (- 10)) (Finite 1)
      (Finite 0) (Finite 0) (Finite 1) = Inr tiles)"
  using generate_tiles_no_bounds_check [of PosInf "Finite 0" "Finite 1" "Finite 1" "Finite 1"
      "Finite 0" "Finite 0" "Finite 1" 10 10 "- 10" "- 10" 0 0 1 1]
  by (simp add: generate_tiles_def snapped_start_def float_sub_def signed_inf_def)

section \<open>Tile ID formatter\<close>

text \<open>
  Claim C2. The claim, and the docstrings of the module and of \<^verbatim>\<open>format_tile_id\<close>
  (\<^verbatim>\<open>C+-#######\<close>, example \<^verbatim>\<open>T98304_R32_C+0000000_R+0000000\<close>), give the column and
  the row a sign followed by seven digits. The format \<^verbatim>\<open>+07d\<close> of the code makes the
  whole field seven characters wide, the sign included, so that only six digits follow
  the sign: the code evaluated at \<open>tile_size = 98304\<close>, \<open>col = 0\<close>, \<open>row = 0\<close>,
  \<open>resolution = 32\<close>.
\<close>

theorem format_tile_id_six_digits:
  "format_tile_id 98304 0 0 32 = ''T98304_R32_C+000000_R+000000'' \<and>
   format_tile_id 98304 0 0 32 \<noteq> ''T98304_R32_C+0000000_R+0000000''"
  by (simp add: fmt_0_0)

text \<open>
  Claim C4. The example of the specification, evaluated: the bounds
  \<open>(-10000, -10000, 100000, 100000)\<close> snap to \<open>(-98304, -98304, 196608, 196608)\<close>, nine
  tiles are generated, and the first one has \<open>col = -1\<close>, \<open>row = -1\<close> and the extent
  \<open>(-98304, -98304, 0, 0)\<close>; its \<open>tile_id\<close> is \<^verbatim>\<open>T98304_R32_C-000001_R-000001\<close>, with
  six digits after each sign, not the \<^verbatim>\<open>T98304_R32_C-0000001_R-0000001\<close> of the claim.
\<close>

theorem round_trip_example:
  "snapped_start (Finite (- 10000)) (Finite 0) (Finite 98304) = Inr (Finite (- 98304)) \<and>
   snapped_end (Finite 100000) (Finite 0) (Finite 98304) = Inr (Finite 196608) \<and>
   (\<exists>tiles. generate_tiles (Finite (- 10000), Finite (- 10000), Finite 100000, Finite 100000)
        (Finite 98304) (Finite 0) (Finite 0) (Finite 32) = Inr tiles \<and>
      length tiles = 9 \<and>
      t_col (tiles ! 0) = - 1 \<and> t_row (tiles ! 0) = - 1 \<and>
      t_xmin (tiles ! 0) = Finite (- 98304) \<and> t_ymin (tiles ! 0) = Finite (- 98304) \<and>
      t_xmax (tiles ! 0) = Finite 0 \<and> t_ymax (tiles ! 0) = Finite 0 \<and>
      t_tile_id (tiles ! 0) = ''T98304_R32_C-000001_R-000001'' \<and>
      t_tile_id (tiles ! 0) \<noteq> ''T98304_R32_C-0000001_R-0000001'')"
proof -
  have s: "snapped_start (Finite (- 10000)) (Finite 0) (Finite 98304) = Inr (Finite (- 98304))"
    "snapped_end (Finite 100000) (Finite 0) (Finite 98304) = Inr (Finite 196608)"
    using snapped_start_int [of "- 10000" 0 98304] snapped_end_int [of 100000 0 98304]
    by simp_all
  have t: "grid_tile 98304 0 0 32 (- 1) (- 1) =
     \<lparr>t_tile_id = ''T98304_R32_C-000001_R-000001'', t_tile_size_ft = Finite 98304,
      t_resolution_ft = Finite 32, t_origin_x = Finite 0, t_origin_y = Finite 0,
      t_col = - 1, t_row = - 1,
      t_xmin = Finite (- 98304), t_ymin = Finite (- 98304), t_xmax = Finite 0,
      t_ymax = Finite 0, t_width = Finite 98304, t_height = Finite 98304,
      t_geometry = (Finite (- 98304), Finite (- 98304), Finite 0, Finite 0)\<rparr>"
    by (simp add: grid_tile_def Let_def fmt_m1_m1)
  show ?thesis
    using s unfolding gen_example by (simp add: t)
qed

text \<open>
  Claim C3. The claim is that, for a fixed tile size and resolution and indices within
  \<open>-9,999,999\<close> to \<open>9,999,999\<close>, one tile ID is below another in lexicographic order exactly when its
  \<open>(row, col)\<close> is below the other's. Three inputs in that range where it fails: the ID
  holds the column before the row, so \<open>(col, row) = (0, 1)\<close> sorts before \<open>(1, 0)\<close>; the
  character \<^verbatim>\<open>+\<close> is below \<^verbatim>\<open>-\<close>, so column \<open>-1\<close> sorts after column \<open>0\<close>; and a column
  of seven digits makes the field longer, so \<open>1000000\<close> sorts before \<open>999999\<close>.
\<close>

theorem tile_id_order_not_row_col:
  "format_tile_id 98304 0 1 32 < format_tile_id 98304 1 0 32 \<and>
     \<not> (1::int, 0::int) < (0, 1) \<and>
   \<not> format_tile_id 98304 (- 1) 0 32 < format_tile_id 98304 0 0 32 \<and>
     (0::int, - 1::int) < (0, 0) \<and>
   \<not> format_tile_id 98304 999999 0 32 < format_tile_id 98304 1000000 0 32 \<and>
     (0::int, 999999::int) < (0, 1000000)"
  by (simp add: format_tile_id_98304_32 field_0 field_1 field_m1 field_999999 field_1000000)

text \<open>
  Claim C3, as the code has it. For a fixed tile size and resolution and indices from
  \<open>0\<close> to \<open>999,999\<close> (the range where the field of \<^verbatim>\<open>+07d\<close> has a fixed width), one tile
  ID is below another in lexicographic order exactly when its \<open>(col, row)\<close> is below the
  other's: column first, then row.
\<close>

theorem tile_id_order_col_row:
  assumes "0 \<le> col1" "col1 \<le> 999999" "0 \<le> row1" "row1 \<le> 999999"
    and "0 \<le> col2" "col2 \<le> 999999" "0 \<le> row2" "row2 \<le> 999999"
  shows "format_tile_id tile_size col1 row1 resolution
           < format_tile_id tile_size col2 row2 resolution
         \<longleftrightarrow> (col1, row1) < (col2, row2)"
proof -
  define p where "p = ''T'' @ py_str_int (py_round tile_size) @ ''_R''
      @ py_str_int (py_round resolution) @ ''_C''"
  have id: "format_tile_id tile_size c r resolution =
      p @ (py_format_plus_zero_d 7 c @ (''_R'' @ py_format_plus_zero_d 7 r))" for c r
    by (simp add: format_tile_id_def p_def Let_def)
  have len: "length (py_format_plus_zero_d 7 col1) = length (py_format_plus_zero_d 7 col2)"
    using format_field_order(1) [OF assms(1,2,1,2)] format_field_order(1) [OF assms(5,6,5,6)]
    by simp
  have "format_tile_id tile_size col1 row1 resolution
           < format_tile_id tile_size col2 row2 resolution \<longleftrightarrow>
        py_format_plus_zero_d 7 col1 < py_format_plus_zero_d 7 col2 \<or>
        py_format_plus_zero_d 7 col1 = py_format_plus_zero_d 7 col2 \<and>
        py_format_plus_zero_d 7 row1 < py_format_plus_zero_d 7 row2"
    unfolding id append_less_same_prefix append_less_same_length [OF len] ..
  also have "\<dots> \<longleftrightarrow> col1 < col2 \<or> col1 = col2 \<and> row1 < row2"
    unfolding format_field_order(2,3) [OF assms(1,2,5,6)] format_field_order(2) [OF assms(3,4,7,8)] ..
  also have "\<dots> \<longleftrightarrow> (col1, row1) < (col2, row2)"
    by auto
  finally show ?thesis .
qed

theorem tile_id_order_col_row_witness:
  "(0::int) \<le> 0 \<and> (0::int) \<le> 999999 \<and> (0::int) \<le> 1 \<and> (1::int) \<le> 999999 \<and>
   format_tile_id 98304 0 1 32 < format_tile_id 98304 1 0 32 \<and> (0::int, 1::int) < (1, 0)"
  using tile_id_order_col_row [of 0 1 1 0 98304 32] by simp

end
